theory Spec2Isabelle
  imports Main
begin

section \<open>Strings\<close>

text \<open>
  A JavaScript string is a sequence of UTF-16 code units. The model keeps the code units
  below 256 (ASCII and Latin-1), one \<^typ>\<open>char\<close> each; this covers addresses, identifiers
  and ABI signatures. The character classes below are the ones the source's regular
  expressions and \<^verbatim>\<open>toLowerCase\<close> use, restricted to that range.
\<close>

definition code_unit :: "char \<Rightarrow> nat" where
  "code_unit c = of_char c"

text \<open>\<^verbatim>\<open>\s\<close>: tab, line feed, vertical tab, form feed, carriage return, space, no-break space.\<close>

definition is_space :: "char \<Rightarrow> bool" where
  "is_space c = (code_unit c = 9 \<or> code_unit c = 10 \<or> code_unit c = 11 \<or> code_unit c = 12
     \<or> code_unit c = 13 \<or> code_unit c = 32 \<or> code_unit c = 160)"

text \<open>\<^verbatim>\<open>\w\<close>: \<^verbatim>\<open>[A-Za-z0-9_]\<close>.\<close>

definition is_word :: "char \<Rightarrow> bool" where
  "is_word c = ((65 \<le> code_unit c \<and> code_unit c \<le> 90) \<or> (97 \<le> code_unit c \<and> code_unit c \<le> 122)
     \<or> (48 \<le> code_unit c \<and> code_unit c \<le> 57) \<or> code_unit c = 95)"

text \<open>
  \<^verbatim>\<open>String.prototype.toLowerCase\<close>: below 256 the upper-case letters are A to Z and
  U+00C0 to U+00DE without the multiplication sign U+00D7; each is 32 below its lower-case
  letter, so lower-casing sets bit 5 of the code unit.
\<close>

definition is_upper :: "char \<Rightarrow> bool" where
  "is_upper c = ((65 \<le> code_unit c \<and> code_unit c \<le> 90)
     \<or> (192 \<le> code_unit c \<and> code_unit c \<le> 222 \<and> code_unit c \<noteq> 215))"

definition toLowerCase_char :: "char \<Rightarrow> char" where
  "toLowerCase_char c =
     (if is_upper c
      then (case c of Char b0 b1 b2 b3 b4 b5 b6 b7 \<Rightarrow> Char b0 b1 b2 b3 b4 True b6 b7)
      else c)"

definition toLowerCase :: "string \<Rightarrow> string" where
  "toLowerCase s = map toLowerCase_char s"

text \<open>\<^verbatim>\<open>s.startsWith(p)\<close>.\<close>

definition startsWith :: "string \<Rightarrow> string \<Rightarrow> bool" where
  "startsWith s p = (take (length p) s = p)"

text \<open>\<^verbatim>\<open>xs.join(sep)\<close>.\<close>

fun join :: "string \<Rightarrow> string list \<Rightarrow> string" where
  "join sep [] = []"
| "join sep [x] = x"
| "join sep (x # y # ys) = x @ sep @ join sep (y # ys)"

text \<open>\<^verbatim>\<open>s.split('\n')\<close>: the pieces between line feeds; the empty string gives one empty piece.\<close>

fun split_lines :: "string \<Rightarrow> string list" where
  "split_lines [] = [[]]"
| "split_lines (c # cs) =
     (if code_unit c = 10 then [] # split_lines cs
      else (case split_lines cs of
              l # ls \<Rightarrow> (c # l) # ls
            | [] \<Rightarrow> [[c]]))"


section \<open>Data model\<close>

text \<open>
  Modelled from the spec: \<^verbatim>\<open>ExternalCall\<close> is declared in \<^verbatim>\<open>./types\<close>, which is not among the
  sources. The heuristics read three string fields of it.
\<close>

record ExternalCall =
  storageVariable :: string
  interfaceType :: string
  calledFunction :: string

text \<open>
  Modelled from the spec: \<^verbatim>\<open>DiscoveryOutput\<close> and its entries come from the package
  \<^verbatim>\<open>@l2beat/discovery\<close>. An entry has an address, an optional name, a type (\<^verbatim>\<open>'Contract'\<close> for
  the entries that take part in resolution) and optional recorded values; a value is a
  string, a number, a boolean, an array or an object. The graph maps an address to its ABI,
  a list of signature strings. Reading a key that an object does not have gives
  \<^verbatim>\<open>undefined\<close>, here \<^const>\<open>None\<close>.
\<close>

datatype ContractValue =
    VString string
  | VNumber int
  | VBoolean bool
  | VArray "ContractValue list"
  | VObject "(string \<times> ContractValue) list"

record DiscoveredEntry =
  address :: string
  name :: "string option"
  type :: string
  "values" :: "(string \<rightharpoonup> ContractValue) option"

record DiscoveryOutput =
  entries :: "DiscoveredEntry list"
  abis :: "string \<rightharpoonup> string list"

text \<open>
  The interfaces of the heuristics module. Field names that several interfaces share carry
  a prefix after the first (\<open>m_address\<close>, \<open>h_name\<close>, \<open>c_address\<close>, ...); \<open>apply\<close> is \<open>h_apply\<close>.
\<close>

record HeuristicMatch =
  m_address :: string
  contractName :: "string option"

record HeuristicResult =
  matches :: "HeuristicMatch list"
  confidence :: int

record HeuristicContext =
  call :: ExternalCall
  callerContractAddress :: string
  discovered :: DiscoveryOutput
  variableAssignments :: "string \<rightharpoonup> string"

record ResolutionHeuristic =
  h_name :: string
  description :: string
  h_apply :: "HeuristicContext \<Rightarrow> HeuristicResult option"

text \<open>
  Modelled from the spec: \<^verbatim>\<open>ResolutionCandidate\<close> is declared in \<^verbatim>\<open>./types\<close>; the engine
  builds it from an address and an optional contract name.
\<close>

record ResolutionCandidate =
  c_address :: string
  c_contractName :: "string option"

record HeuristicEngineResult =
  heuristicName :: string
  r_matches :: "ResolutionCandidate list"
  r_confidence :: int


section \<open>Variable-chain heuristic\<close>

text \<open>
  The loop of \<^verbatim>\<open>resolveVariableChain\<close>, on its state \<open>(current, depth)\<close>:
  \<^verbatim>\<open>while (assignments.has(current) && depth < maxDepth) { current = assignments.get(current)!; depth++ }\<close>.
  The final depth is returned beside the name, so that the number of hops can be stated.
\<close>

function resolveVariableChain_loop ::
  "(string \<rightharpoonup> string) \<Rightarrow> nat \<Rightarrow> string \<Rightarrow> nat \<Rightarrow> string \<times> nat" where
  "resolveVariableChain_loop assignments maxDepth current depth =
     (case assignments current of
        None \<Rightarrow> (current, depth)
      | Some source \<Rightarrow>
          if depth < maxDepth
          then resolveVariableChain_loop assignments maxDepth source (depth + 1)
          else (current, depth))"
  by pat_completeness auto
termination
  by (relation "measure (\<lambda>(assignments, maxDepth, current, depth). maxDepth - depth)") auto

declare resolveVariableChain_loop.simps [simp del]

definition resolveVariableChain :: "string \<Rightarrow> (string \<rightharpoonup> string) \<Rightarrow> string" where
  "resolveVariableChain variable assignments =
     fst (resolveVariableChain_loop assignments 10 variable 0)"

definition VariableChainHeuristic_apply :: "HeuristicContext \<Rightarrow> HeuristicResult option" where
  "VariableChainHeuristic_apply context =
     (let resolvedVar =
            resolveVariableChain (storageVariable (call context)) (variableAssignments context)
      in if resolvedVar = storageVariable (call context) then None
         else
           (case List.find
                   (\<lambda>e. toLowerCase (address e) = toLowerCase (callerContractAddress context)
                        \<and> type e = ''Contract'')
                   (entries (discovered context)) of
              None \<Rightarrow> None
            | Some contract \<Rightarrow>
                (case values contract of
                   None \<Rightarrow> None
                 | Some vs \<Rightarrow>
                     (case vs resolvedVar of
                        Some (VString v) \<Rightarrow>
                          if startsWith v ''eth:''
                          then
                            (let resolvedContract =
                                   List.find (\<lambda>e. toLowerCase (address e) = toLowerCase v)
                                     (entries (discovered context))
                             in Some \<lparr>matches =
                                        [\<lparr>m_address = v,
                                          contractName =
                                            (case resolvedContract of
                                               None \<Rightarrow> None
                                             | Some e \<Rightarrow> name e)\<rparr>],
                                      confidence = 100\<rparr>)
                          else None
                      | _ \<Rightarrow> None))))"

definition VariableChainHeuristic :: ResolutionHeuristic where
  "VariableChainHeuristic =
     \<lparr>h_name = ''variable-chain'',
      description = ''Follow variable assignment chain to state variable'',
      h_apply = VariableChainHeuristic_apply\<rparr>"


section \<open>Interface-name heuristic\<close>

definition InterfaceNameHeuristic_calculateConfidence :: "nat \<Rightarrow> int" where
  "InterfaceNameHeuristic_calculateConfidence matchCount =
     (if matchCount = 1 then 90 else if matchCount = 2 then 60 else 40)"

text \<open>The \<^verbatim>\<open>for\<close> loop over \<^verbatim>\<open>discovered.entries\<close>; \<open>ms\<close> is the array \<^verbatim>\<open>matches\<close>.\<close>

fun InterfaceNameHeuristic_loop ::
  "string \<Rightarrow> DiscoveredEntry list \<Rightarrow> HeuristicMatch list \<Rightarrow> HeuristicMatch list" where
  "InterfaceNameHeuristic_loop expectedContractName [] ms = ms"
| "InterfaceNameHeuristic_loop expectedContractName (entry # rest) ms =
     (if type entry \<noteq> ''Contract''
      then InterfaceNameHeuristic_loop expectedContractName rest ms
      else
        (let contractName = (case name entry of None \<Rightarrow> [] | Some n \<Rightarrow> n)
         in if toLowerCase contractName = toLowerCase expectedContractName
            then InterfaceNameHeuristic_loop expectedContractName rest
                   (ms @ [\<lparr>m_address = address entry, contractName = name entry\<rparr>])
            else InterfaceNameHeuristic_loop expectedContractName rest ms))"

definition InterfaceNameHeuristic_apply :: "HeuristicContext \<Rightarrow> HeuristicResult option" where
  "InterfaceNameHeuristic_apply context =
     (let interfaceName = interfaceType (call context)
      in if \<not> startsWith interfaceName ''I'' \<or> length interfaceName \<le> 1 then None
         else
           (let expectedContractName = drop 1 interfaceName;
                ms = InterfaceNameHeuristic_loop expectedContractName
                       (entries (discovered context)) []
            in if length ms = 0 then None
               else Some \<lparr>matches = ms,
                          confidence = InterfaceNameHeuristic_calculateConfidence (length ms)\<rparr>))"

definition InterfaceNameHeuristic :: ResolutionHeuristic where
  "InterfaceNameHeuristic =
     \<lparr>h_name = ''interface-name'',
      description = ''Match interface name to contract name (strip I prefix)'',
      h_apply = InterfaceNameHeuristic_apply\<rparr>"


section \<open>Function-signature heuristic\<close>

definition FunctionSignatureHeuristic_calculateConfidence :: "nat \<Rightarrow> int" where
  "FunctionSignatureHeuristic_calculateConfidence matchCount =
     (if matchCount = 1 then 99 else if matchCount = 2 then 50 else 30)"

text \<open>
  \<^verbatim>\<open>abiEntry.match(/^function\s+(\w+)\(/)\<close>, giving the first group. The classes \<^verbatim>\<open>\s\<close>,
  \<^verbatim>\<open>\w\<close> and the parenthesis are pairwise disjoint, so the greedy runs cannot be
  shortened by backtracking: after \<^verbatim>\<open>function\<close> come the longest run of white space (not
  empty), the longest run of word characters (not empty) and the parenthesis.
\<close>

definition match_function :: "string \<Rightarrow> string option" where
  "match_function abiEntry =
     (if \<not> startsWith abiEntry ''function'' then None
      else
        (let r1 = drop 8 abiEntry;
             ws = takeWhile is_space r1;
             r2 = dropWhile is_space r1;
             fname = takeWhile is_word r2;
             r3 = dropWhile is_word r2
         in if ws \<noteq> [] \<and> fname \<noteq> [] \<and> startsWith r3 ''('' then Some fname else None))"

text \<open>The callback of \<^verbatim>\<open>abi.some\<close>.\<close>

definition isCalledFunction :: "string \<Rightarrow> string \<Rightarrow> bool" where
  "isCalledFunction functionName abiEntry =
     (if \<not> startsWith abiEntry ''function '' then False
      else (case match_function abiEntry of
              None \<Rightarrow> False
            | Some fname \<Rightarrow> fname = functionName))"

fun FunctionSignatureHeuristic_loop ::
  "string \<Rightarrow> (string \<rightharpoonup> string list) \<Rightarrow> DiscoveredEntry list \<Rightarrow> HeuristicMatch list
     \<Rightarrow> HeuristicMatch list" where
  "FunctionSignatureHeuristic_loop functionName abiOf [] ms = ms"
| "FunctionSignatureHeuristic_loop functionName abiOf (entry # rest) ms =
     (if type entry \<noteq> ''Contract''
      then FunctionSignatureHeuristic_loop functionName abiOf rest ms
      else
        (case abiOf (address entry) of
           None \<Rightarrow> FunctionSignatureHeuristic_loop functionName abiOf rest ms
         | Some abi \<Rightarrow>
             (let hasFunction = list_ex (isCalledFunction functionName) abi
              in if hasFunction
                 then FunctionSignatureHeuristic_loop functionName abiOf rest
                        (ms @ [\<lparr>m_address = address entry, contractName = name entry\<rparr>])
                 else FunctionSignatureHeuristic_loop functionName abiOf rest ms)))"

definition FunctionSignatureHeuristic_apply :: "HeuristicContext \<Rightarrow> HeuristicResult option" where
  "FunctionSignatureHeuristic_apply context =
     (let functionName = calledFunction (call context);
          ms = FunctionSignatureHeuristic_loop functionName (abis (discovered context))
                 (entries (discovered context)) []
      in if length ms = 0 then None
         else Some \<lparr>matches = ms,
                    confidence = FunctionSignatureHeuristic_calculateConfidence (length ms)\<rparr>)"

definition FunctionSignatureHeuristic :: ResolutionHeuristic where
  "FunctionSignatureHeuristic =
     \<lparr>h_name = ''function-signature'',
      description = ''Match called function to contracts with that function in ABI'',
      h_apply = FunctionSignatureHeuristic_apply\<rparr>"


section \<open>Heuristic engine\<close>

record HeuristicEngine =
  heuristics :: "ResolutionHeuristic list"

definition new_HeuristicEngine :: HeuristicEngine where
  "new_HeuristicEngine = \<lparr>heuristics = []\<rparr>"

definition register :: "HeuristicEngine \<Rightarrow> ResolutionHeuristic \<Rightarrow> HeuristicEngine" where
  "register engine heuristic = engine\<lparr>heuristics := heuristics engine @ [heuristic]\<rparr>"

definition createHeuristicEngine :: HeuristicEngine where
  "createHeuristicEngine =
     register (register (register new_HeuristicEngine VariableChainHeuristic)
       InterfaceNameHeuristic) FunctionSignatureHeuristic"

text \<open>
  \<^verbatim>\<open>Array.prototype.sort(cmp)\<close> is stable: elements that compare equal keep their order.
  For a comparator that orders by a key the sorted array is unique; insertion from the
  right computes it.
\<close>

fun insert_sorted :: "('a \<Rightarrow> 'a \<Rightarrow> int) \<Rightarrow> 'a \<Rightarrow> 'a list \<Rightarrow> 'a list" where
  "insert_sorted cmp x [] = [x]"
| "insert_sorted cmp x (y # ys) =
     (if cmp x y \<le> 0 then x # y # ys else y # insert_sorted cmp x ys)"

definition sort_js :: "('a \<Rightarrow> 'a \<Rightarrow> int) \<Rightarrow> 'a list \<Rightarrow> 'a list" where
  "sort_js cmp xs = foldr (insert_sorted cmp) xs []"

text \<open>
  The lines handed to \<^verbatim>\<open>onProgress\<close>, one constructor for each template string of the
  source, with the interpolated values as arguments (the arrow of the templates is written
  \<^verbatim>\<open>->\<close> here):
  \<^item> \<open>Resolving v f t\<close>: \<^verbatim>\<open>Resolving: ${storageVariable} -> ${calledFunction}() [${interfaceType}]\<close>
  \<^item> \<open>HeuristicMatched n k names c\<close>: \<^verbatim>\<open>- ${name}: ${k} match(es) [${names}] -> confidence: ${c}%\<close>
  \<^item> \<open>HeuristicNoMatch n\<close>: \<^verbatim>\<open>- ${name}: no match\<close>
  \<^item> \<open>WinnerNone\<close>: \<^verbatim>\<open>Winner: none\<close>
  \<^item> \<open>Winner n c names\<close>: \<^verbatim>\<open>Winner: ${name} (${c}%) -> ${names}\<close>
\<close>

datatype trace_line =
    Resolving string string string
  | HeuristicMatched string nat string int
  | HeuristicNoMatch string
  | WinnerNone
  | Winner string int string

text \<open>\<^verbatim>\<open>matches.map((m) => m.contractName || m.address.slice(0, 14)).join(', ')\<close>\<close>

definition matchNames :: "HeuristicMatch list \<Rightarrow> string" where
  "matchNames ms =
     join '', ''
       (map (\<lambda>m. case contractName m of
                    None \<Rightarrow> take 14 (m_address m)
                  | Some n \<Rightarrow> if n = [] then take 14 (m_address m) else n) ms)"

definition toCandidates :: "HeuristicMatch list \<Rightarrow> ResolutionCandidate list" where
  "toCandidates ms = map (\<lambda>m. \<lparr>c_address = m_address m, c_contractName = contractName m\<rparr>) ms"

text \<open>
  The optional callback acts on the state \<open>'s\<close> of whoever receives the trace;
  \<^verbatim>\<open>onProgress?.(msg)\<close> does nothing when no callback was passed.
\<close>

type_synonym 's progress = "(trace_line \<Rightarrow> 's \<Rightarrow> 's) option"

definition notify :: "'s progress \<Rightarrow> trace_line \<Rightarrow> 's \<Rightarrow> 's" where
  "notify onProgress msg s = (case onProgress of None \<Rightarrow> s | Some f \<Rightarrow> f msg s)"

type_synonym results = "(ResolutionHeuristic \<times> HeuristicResult) list"

fun resolve_loop ::
  "'s progress \<Rightarrow> HeuristicContext \<Rightarrow> ResolutionHeuristic list \<Rightarrow> results \<Rightarrow> 's
     \<Rightarrow> results \<times> 's" where
  "resolve_loop onProgress context [] results s = (results, s)"
| "resolve_loop onProgress context (heuristic # rest) results s =
     (case h_apply heuristic context of
        Some result \<Rightarrow>
          resolve_loop onProgress context rest (results @ [(heuristic, result)])
            (notify onProgress
               (HeuristicMatched (h_name heuristic) (length (matches result))
                  (matchNames (matches result)) (confidence result)) s)
      | None \<Rightarrow>
          resolve_loop onProgress context rest results
            (notify onProgress (HeuristicNoMatch (h_name heuristic)) s))"

definition byConfidenceDesc ::
  "ResolutionHeuristic \<times> HeuristicResult \<Rightarrow> ResolutionHeuristic \<times> HeuristicResult \<Rightarrow> int" where
  "byConfidenceDesc a b = confidence (snd b) - confidence (snd a)"

definition resolving_line :: "HeuristicContext \<Rightarrow> trace_line" where
  "resolving_line context =
     Resolving (storageVariable (call context)) (calledFunction (call context))
       (interfaceType (call context))"

definition winner_line :: "ResolutionHeuristic \<times> HeuristicResult \<Rightarrow> trace_line" where
  "winner_line winner =
     Winner (h_name (fst winner)) (confidence (snd winner)) (matchNames (matches (snd winner)))"

definition toEngineResult :: "ResolutionHeuristic \<times> HeuristicResult \<Rightarrow> HeuristicEngineResult" where
  "toEngineResult winner =
     \<lparr>heuristicName = h_name (fst winner),
      r_matches = toCandidates (matches (snd winner)),
      r_confidence = confidence (snd winner)\<rparr>"

text \<open>
  \<^verbatim>\<open>resolve\<close> returns the decision and leaves the receiver of the trace in a new state.
  \<^verbatim>\<open>results[0]!\<close> is read only when \<^verbatim>\<open>results\<close> is not empty, and sorting keeps every
  element, so the empty case of the sorted array is never reached.
\<close>

definition resolve ::
  "HeuristicEngine \<Rightarrow> HeuristicContext \<Rightarrow> 's progress \<Rightarrow> 's \<Rightarrow> HeuristicEngineResult option \<times> 's" where
  "resolve engine context onProgress s0 =
     (let s1 = notify onProgress (resolving_line context) s0;
          (results, s2) = resolve_loop onProgress context (heuristics engine) [] s1
      in if length results = 0 then (None, notify onProgress WinnerNone s2)
         else
           (case sort_js byConfidenceDesc results of
              [] \<Rightarrow> (None, s2)
            | winner # _ \<Rightarrow>
                (Some (toEngineResult winner), notify onProgress (winner_line winner) s2)))"

text \<open>
  \<^verbatim>\<open>resolveAsync\<close> is suspended at every \<^verbatim>\<open>await onProgress?.(msg)\<close>. A promise is either
  resolved with a value or waiting at such a point: \<open>Await eff k\<close> holds what the awaited
  callback does to the receiver's state (nothing when no callback was passed) and the rest
  of the function, which runs once the callback's promise has settled.
\<close>

datatype ('s, 'a) promise =
    Resolved 'a
  | Await "'s \<Rightarrow> 's" "('s, 'a) promise"

primrec run_async :: "('s, 'a) promise \<Rightarrow> 's \<Rightarrow> 'a \<times> 's" where
  "run_async (Resolved a) s = (a, s)"
| "run_async (Await eff k) s = run_async k (eff s)"

definition notifyAsync :: "'s progress \<Rightarrow> trace_line \<Rightarrow> ('s, 'a) promise \<Rightarrow> ('s, 'a) promise" where
  "notifyAsync onProgress msg k =
     Await (case onProgress of None \<Rightarrow> (\<lambda>s. s) | Some f \<Rightarrow> f msg) k"

fun resolveAsync_loop ::
  "'s progress \<Rightarrow> HeuristicContext \<Rightarrow> ResolutionHeuristic list \<Rightarrow> results
     \<Rightarrow> (results \<Rightarrow> ('s, 'a) promise) \<Rightarrow> ('s, 'a) promise" where
  "resolveAsync_loop onProgress context [] results k = k results"
| "resolveAsync_loop onProgress context (heuristic # rest) results k =
     (case h_apply heuristic context of
        Some result \<Rightarrow>
          notifyAsync onProgress
            (HeuristicMatched (h_name heuristic) (length (matches result))
               (matchNames (matches result)) (confidence result))
            (resolveAsync_loop onProgress context rest (results @ [(heuristic, result)]) k)
      | None \<Rightarrow>
          notifyAsync onProgress (HeuristicNoMatch (h_name heuristic))
            (resolveAsync_loop onProgress context rest results k))"

definition resolveAsync ::
  "HeuristicEngine \<Rightarrow> HeuristicContext \<Rightarrow> 's progress
     \<Rightarrow> ('s, HeuristicEngineResult option) promise" where
  "resolveAsync engine context onProgress =
     notifyAsync onProgress (resolving_line context)
       (resolveAsync_loop onProgress context (heuristics engine) []
          (\<lambda>results.
             if length results = 0 then notifyAsync onProgress WinnerNone (Resolved None)
             else
               (case sort_js byConfidenceDesc results of
                  [] \<Rightarrow> Resolved None
                | winner # _ \<Rightarrow>
                    notifyAsync onProgress (winner_line winner)
                      (Resolved (Some (toEngineResult winner))))))"


section \<open>Parsing variable assignments\<close>

text \<open>
  \<^verbatim>\<open>line.match(/^\s*(\w+)\([^)]+\)\s*:=\s*(\w+)\(/)\<close>, giving the two groups. Every greedy
  run is followed by a character outside its class, so no run can be shortened by
  backtracking and the match, when there is one, is unique.
\<close>

definition match_assignment :: "string \<Rightarrow> (string \<times> string) option" where
  "match_assignment line =
     (let r1 = dropWhile is_space line;
          target = takeWhile is_word r1;
          r2 = dropWhile is_word r1
      in if target = [] \<or> \<not> startsWith r2 ''('' then None
         else
           (let r3 = drop 1 r2;
                ty = takeWhile (\<lambda>c. c \<noteq> CHR '')'') r3;
                r4 = dropWhile (\<lambda>c. c \<noteq> CHR '')'') r3
            in if ty = [] \<or> \<not> startsWith r4 '')'' then None
               else
                 (let r5 = dropWhile is_space (drop 1 r4)
                  in if \<not> startsWith r5 '':='' then None
                     else
                       (let r6 = dropWhile is_space (drop 2 r5);
                            source = takeWhile is_word r6;
                            r7 = dropWhile is_word r6
                        in if source = [] \<or> \<not> startsWith r7 ''('' then None
                           else Some (target, source)))))"

fun parse_loop :: "string list \<Rightarrow> (string \<rightharpoonup> string) \<Rightarrow> (string \<rightharpoonup> string)" where
  "parse_loop [] assignments = assignments"
| "parse_loop (line # rest) assignments =
     (case match_assignment line of
        None \<Rightarrow> parse_loop rest assignments
      | Some (target, source) \<Rightarrow>
          if target \<noteq> [] \<and> source \<noteq> []
          then parse_loop rest (assignments(target \<mapsto> source))
          else parse_loop rest assignments)"

definition parseVariableAssignments :: "string \<Rightarrow> (string \<rightharpoonup> string)" where
  "parseVariableAssignments slithirOutput = parse_loop (split_lines slithirOutput) Map.empty"


section \<open>Notions used to state the properties\<close>

text \<open>
  \<open>follow assignments k v\<close> is the name reached from \<open>v\<close> by exactly \<open>k\<close> hops, each from a
  name to its entry in the map; there is none when a name on the way has no entry.
\<close>

fun follow :: "(string \<rightharpoonup> string) \<Rightarrow> nat \<Rightarrow> string \<Rightarrow> string option" where
  "follow assignments 0 v = Some v"
| "follow assignments (Suc k) v =
     (case assignments v of None \<Rightarrow> None | Some w \<Rightarrow> follow assignments k w)"

text \<open>The number of hops the loop of \<^verbatim>\<open>resolveVariableChain\<close> has made when it stops.\<close>

definition resolveVariableChain_hops :: "string \<Rightarrow> (string \<rightharpoonup> string) \<Rightarrow> nat" where
  "resolveVariableChain_hops variable assignments =
     snd (resolveVariableChain_loop assignments 10 variable 0)"

text \<open>
  The shape the regular expression of \<^verbatim>\<open>parseVariableAssignments\<close> describes, read as a
  decomposition of the line: optional white space, the target identifier, a parenthesised
  type annotation that is not empty and holds no closing parenthesis, \<^verbatim>\<open>:=\<close> with optional
  white space on both sides, the source identifier, an opening parenthesis, anything.
\<close>

definition assignment_line :: "string \<Rightarrow> string \<Rightarrow> string \<Rightarrow> bool" where
  "assignment_line line target source =
     (\<exists>ws0 ty ws1 ws2 rest.
        line = ws0 @ target @ ''('' @ ty @ '')'' @ ws1 @ '':='' @ ws2 @ source @ ''('' @ rest
        \<and> list_all is_space ws0
        \<and> target \<noteq> [] \<and> list_all is_word target
        \<and> ty \<noteq> [] \<and> list_all (\<lambda>c. c \<noteq> CHR '')'') ty
        \<and> list_all is_space ws1 \<and> list_all is_space ws2
        \<and> source \<noteq> [] \<and> list_all is_word source)"

text \<open>
  The shape the test of the function-signature heuristic describes: the word
  \<^verbatim>\<open>function\<close>, white space that starts with a space, the name, an opening parenthesis.
\<close>

definition function_entry :: "string \<Rightarrow> string \<Rightarrow> bool" where
  "function_entry abiEntry fname =
     (\<exists>ws rest. abiEntry = ''function'' @ ws @ fname @ ''('' @ rest
        \<and> ws \<noteq> [] \<and> hd ws = CHR '' '' \<and> list_all is_space ws
        \<and> fname \<noteq> [] \<and> list_all is_word fname)"

text \<open>
  Equality of strings letter case apart, said without \<^verbatim>\<open>toLowerCase\<close>: the strings have
  the same length, and at each position the characters are equal or are the upper-case and
  the lower-case form of one letter (A to Z, and U+00C0 to U+00DE without U+00D7, each 32
  below its lower-case form).
\<close>

definition lower_of :: "char \<Rightarrow> char \<Rightarrow> bool" where
  "lower_of c d =
     (((65 \<le> (of_char c :: nat) \<and> (of_char c :: nat) \<le> 90)
       \<or> (192 \<le> (of_char c :: nat) \<and> (of_char c :: nat) \<le> 222 \<and> (of_char c :: nat) \<noteq> 215))
      \<and> (of_char d :: nat) = of_char c + 32)"

definition same_letter :: "char \<Rightarrow> char \<Rightarrow> bool" where
  "same_letter c d = (c = d \<or> lower_of c d \<or> lower_of d c)"

definition same_ignoring_case :: "string \<Rightarrow> string \<Rightarrow> bool" where
  "same_ignoring_case a b = list_all2 same_letter a b"

text \<open>The match a heuristic builds from a discovered entry.\<close>

definition matchOf :: "DiscoveredEntry \<Rightarrow> HeuristicMatch" where
  "matchOf e = \<lparr>m_address = address e, contractName = name e\<rparr>"

text \<open>A contract whose name is the expected one, letter case apart.\<close>

definition namedLike :: "string \<Rightarrow> DiscoveredEntry \<Rightarrow> bool" where
  "namedLike expected e =
     (type e = ''Contract''
      \<and> (case name e of None \<Rightarrow> False | Some n \<Rightarrow> same_ignoring_case n expected))"

text \<open>A contract whose ABI has a function entry with the given name.\<close>

definition exposes :: "(string \<rightharpoonup> string list) \<Rightarrow> string \<Rightarrow> DiscoveredEntry \<Rightarrow> bool" where
  "exposes abiOf fname e =
     (type e = ''Contract''
      \<and> (case abiOf (address e) of
            None \<Rightarrow> False
          | Some abi \<Rightarrow> list_ex (\<lambda>abiEntry. function_entry abiEntry fname) abi))"

text \<open>The entries that stand for the caller, and the first element of a list with a property.\<close>

definition is_caller :: "HeuristicContext \<Rightarrow> DiscoveredEntry \<Rightarrow> bool" where
  "is_caller c e =
     (toLowerCase (address e) = toLowerCase (callerContractAddress c) \<and> type e = ''Contract'')"

definition first_with :: "('a \<Rightarrow> bool) \<Rightarrow> 'a list \<Rightarrow> 'a \<Rightarrow> bool" where
  "first_with P xs x = (\<exists>pre post. xs = pre @ x # post \<and> P x \<and> list_all (\<lambda>y. \<not> P y) pre)"

text \<open>
  Two recorded values that differ at most in letter case: two strings that are equal letter
  case apart and are both address strings (the tag \<^verbatim>\<open>eth:\<close> in front) or both not. Values
  that are not strings play no part in the resolution.
\<close>

fun agree_up_to_case :: "ContractValue \<Rightarrow> ContractValue \<Rightarrow> bool" where
  "agree_up_to_case (VString v) (VString v') =
     (same_ignoring_case v v' \<and> startsWith v ''eth:'' = startsWith v' ''eth:'')"
| "agree_up_to_case (VString v) y = False"
| "agree_up_to_case x (VString v') = False"
| "agree_up_to_case x y = True"

text \<open>
  Two entries that differ at most in the letter case of their addresses and of the strings
  they record.
\<close>

definition recased_entry :: "DiscoveredEntry \<Rightarrow> DiscoveredEntry \<Rightarrow> bool" where
  "recased_entry e e' =
     (same_ignoring_case (address e) (address e')
      \<and> name e = name e' \<and> type e = type e'
      \<and> rel_option (\<lambda>vs vs'. \<forall>k. rel_option agree_up_to_case (vs k) (vs' k))
           (values e) (values e'))"

text \<open>
  Two results of a heuristic that resolve to the same contracts: both absent, or the same
  confidence and, match by match, the same contract name and the same address letter case
  apart.
\<close>

definition same_resolution :: "HeuristicResult option \<Rightarrow> HeuristicResult option \<Rightarrow> bool" where
  "same_resolution =
     rel_option (\<lambda>r r'. confidence r = confidence r'
        \<and> list_all2 (\<lambda>m m'. same_ignoring_case (m_address m) (m_address m')
                         \<and> contractName m = contractName m') (matches r) (matches r'))"

text \<open>The results of the heuristics that have one, in the order of the heuristics.\<close>

definition collect :: "HeuristicContext \<Rightarrow> ResolutionHeuristic list \<Rightarrow> results" where
  "collect context hs = List.map_filter (\<lambda>h. map_option (Pair h) (h_apply h context)) hs"


section \<open>Example inputs\<close>

text \<open>The assignments \<^verbatim>\<open>a := b\<close> and \<^verbatim>\<open>b := a\<close>: a cycle.\<close>

definition swapped :: "string \<rightharpoonup> string" where
  "swapped = [''a'' \<mapsto> ''b'', ''b'' \<mapsto> ''a'']"

text \<open>
  A graph in the manner of the spec's scenario A: the caller holds the address \<open>v\<close> in its
  state variable \<^verbatim>\<open>troveManager\<close>, and the call goes through a local copy of it. The
  addresses of the entries and the caller's address in the context differ in letter case.
\<close>

definition scenario_entries :: "string \<Rightarrow> DiscoveredEntry list" where
  "scenario_entries v =
     [\<lparr>address = ''eth:0xAA'', name = Some ''Borrower'', type = ''Contract'',
       values = Some [''troveManager'' \<mapsto> VString v]\<rparr>,
      \<lparr>address = ''eth:0xAbCd'', name = Some ''TroveManager'', type = ''Contract'',
       values = None\<rparr>,
      \<lparr>address = ''eth:0xEE'', name = Some ''Logger'', type = ''Contract'',
       values = None\<rparr>,
      \<lparr>address = ''eth:0xFF'', name = Some ''trovemanager'', type = ''EOA'',
       values = None\<rparr>]"

definition scenario_abis :: "string \<rightharpoonup> string list" where
  "scenario_abis =
     [''eth:0xAbCd'' \<mapsto> [''constructor()'', ''function liquidate(uint256)''],
      ''eth:0xEE'' \<mapsto> [''event liquidate(uint256)'', ''function Liquidate()'']]"

definition scenario_context :: "string \<Rightarrow> HeuristicContext" where
  "scenario_context v =
     \<lparr>call = \<lparr>storageVariable = ''tmCached'', interfaceType = ''ITroveManager'',
              calledFunction = ''liquidate''\<rparr>,
      callerContractAddress = ''eth:0xaa'',
      discovered = \<lparr>entries = scenario_entries v, abis = scenario_abis\<rparr>,
      variableAssignments = [''tmCached'' \<mapsto> ''troveManager'']\<rparr>"

text \<open>
  The same graph and caller with every address, the recorded one too, written in another
  letter case.
\<close>

definition recased_context :: HeuristicContext where
  "recased_context =
     \<lparr>call = \<lparr>storageVariable = ''tmCached'', interfaceType = ''ITroveManager'',
              calledFunction = ''liquidate''\<rparr>,
      callerContractAddress = ''eth:0xAA'',
      discovered =
        \<lparr>entries =
           [\<lparr>address = ''eth:0xaa'', name = Some ''Borrower'', type = ''Contract'',
             values = Some [''troveManager'' \<mapsto> VString ''eth:0xABCD'']\<rparr>,
            \<lparr>address = ''eth:0xabCD'', name = Some ''TroveManager'', type = ''Contract'',
             values = None\<rparr>,
            \<lparr>address = ''eth:0xee'', name = Some ''Logger'', type = ''Contract'',
             values = None\<rparr>,
            \<lparr>address = ''eth:0xff'', name = Some ''trovemanager'', type = ''EOA'',
             values = None\<rparr>],
         abis = scenario_abis\<rparr>,
      variableAssignments = [''tmCached'' \<mapsto> ''troveManager'']\<rparr>"

text \<open>
  A call on the same graph with no chain and an unknown function, for a given interface
  type: with the interface type \<^verbatim>\<open>I\<close> no heuristic has an opinion on it (scenario D).
\<close>

definition unknown_context :: "string \<Rightarrow> HeuristicContext" where
  "unknown_context interface =
     \<lparr>call = \<lparr>storageVariable = ''pool'', interfaceType = interface,
              calledFunction = ''sweep''\<rparr>,
      callerContractAddress = ''eth:0xaa'',
      discovered = \<lparr>entries = scenario_entries ''eth:0xabcd'', abis = scenario_abis\<rparr>,
      variableAssignments = Map.empty\<rparr>"

text \<open>Heuristics configured to return a fixed result, and three of them with a tie.\<close>

definition fixed_heuristic :: "string \<Rightarrow> int \<Rightarrow> ResolutionHeuristic" where
  "fixed_heuristic n c =
     \<lparr>h_name = n, description = [],
      h_apply = (\<lambda>context. Some \<lparr>matches = [\<lparr>m_address = n, contractName = None\<rparr>],
                                  confidence = c\<rparr>)\<rparr>"

definition tied_heuristics :: "ResolutionHeuristic list" where
  "tied_heuristics =
     [fixed_heuristic ''first'' 50, fixed_heuristic ''second'' 70, fixed_heuristic ''third'' 70]"

text \<open>A callback that appends each line to the list of lines received.\<close>

definition logger :: "trace_line list progress" where
  "logger = Some (\<lambda>msg received. received @ [msg])"

text \<open>Three lines of IR: an assignment, a line of another shape, a second assignment to the same name.\<close>

definition reassigned_text :: string where
  "reassigned_text = ''x(T) := a(T)'' @ [CHR 0x0A] @ ''RETURN x'' @ [CHR 0x0A] @ '' x(T):=b(T)''"


section \<open>The chain walk\<close>

lemma loop_unfold:
  "resolveVariableChain_loop m mx c d =
     (case m c of None \<Rightarrow> (c, d)
      | Some w \<Rightarrow> if d < mx then resolveVariableChain_loop m mx w (Suc d) else (c, d))"
  by (subst resolveVariableChain_loop.simps) (simp split: option.split)

lemma loop_spec:
  "d \<le> mx \<Longrightarrow> resolveVariableChain_loop m mx c d = (r, d') \<Longrightarrow>
     d \<le> d' \<and> d' \<le> mx \<and> follow m (d' - d) c = Some r \<and> (d' = mx \<or> m r = None)"
proof (induction m mx c d rule: resolveVariableChain_loop.induct)
  case (1 m mx c d)
  show ?case
  proof (cases "m c")
    case None
    then have "resolveVariableChain_loop m mx c d = (c, d)"
      by (subst loop_unfold) simp
    with "1.prems" None show ?thesis by simp
  next
    case (Some w)
    show ?thesis
    proof (cases "d < mx")
      case True
      with Some have "resolveVariableChain_loop m mx c d = resolveVariableChain_loop m mx w (d + 1)"
        by (subst loop_unfold) simp
      with "1.prems" have run: "resolveVariableChain_loop m mx w (d + 1) = (r, d')"
        by simp
      from True have "d + 1 \<le> mx" by simp
      from "1.IH" [OF Some True this run]
      have ih: "d + 1 \<le> d'" "d' \<le> mx" "follow m (d' - (d + 1)) w = Some r" "d' = mx \<or> m r = None"
        by simp_all
      from ih(1) have "d' - d = Suc (d' - (d + 1))" by simp
      with ih Some show ?thesis by simp
    next
      case False
      with Some have "resolveVariableChain_loop m mx c d = (c, d)"
        by (subst loop_unfold) simp
      with "1.prems" False show ?thesis by auto
    qed
  qed
qed

lemma swapped_run: "resolveVariableChain_loop swapped 10 ''a'' 0 = (''a'', 10)"
  by (simp add: loop_unfold swapped_def)

text \<open>
  Claim C4. For every assignment map and every starting name, the loop of
  \<^verbatim>\<open>resolveVariableChain\<close> stops (the function is total, by its termination proof) after at
  most 10 hops; the name it returns is reached from the starting name by exactly that many
  hops along map entries; and when it stops before the tenth hop, the name it returns has
  no entry in the map.
\<close>

theorem chain_walk_bounded:
  "resolveVariableChain_hops v m \<le> 10
   \<and> follow m (resolveVariableChain_hops v m) v = Some (resolveVariableChain v m)
   \<and> (resolveVariableChain_hops v m = 10 \<or> m (resolveVariableChain v m) = None)"
proof -
  obtain r d where run: "resolveVariableChain_loop m 10 v 0 = (r, d)"
    by (cases "resolveVariableChain_loop m 10 v 0")
  from loop_spec [OF _ run] run show ?thesis
    by (simp add: resolveVariableChain_hops_def resolveVariableChain_def)
qed

text \<open>On the cycle the walk makes its ten hops and returns the name it holds then.\<close>

theorem chain_walk_cycle:
  "resolveVariableChain ''a'' swapped = ''a'' \<and> resolveVariableChain_hops ''a'' swapped = 10
   \<and> follow swapped 10 ''a'' = Some ''a''"
  using chain_walk_bounded [of "''a''" swapped] swapped_run
  by (simp add: resolveVariableChain_hops_def resolveVariableChain_def)


section \<open>Character classes and prefixes\<close>

lemmas char_class_simps = is_space_def is_word_def is_upper_def code_unit_def
  toLowerCase_def toLowerCase_char_def startsWith_def

lemma is_word_not_space: "is_word c \<Longrightarrow> \<not> is_space c"
  by (auto simp: is_word_def is_space_def)

lemma paren_not_word: "\<not> is_word CHR ''(''"
  by (simp add: is_word_def code_unit_def)

lemma space_is_space: "is_space CHR '' ''"
  by (simp add: is_space_def code_unit_def)

lemma colon_not_space: "\<not> is_space CHR '':''"
  by (simp add: is_space_def code_unit_def)

lemma span_unique:
  "list_all P a \<Longrightarrow> b = [] \<or> \<not> P (hd b) \<Longrightarrow> takeWhile P (a @ b) = a \<and> dropWhile P (a @ b) = b"
  by (induction a) (auto simp: takeWhile_eq_Nil_iff dropWhile_eq_self_iff)

lemma hd_word_not_space: "w \<noteq> [] \<Longrightarrow> list_all is_word w \<Longrightarrow> w @ r = [] \<or> \<not> is_space (hd (w @ r))"
  by (cases w) (auto simp: is_word_not_space)

lemma list_all_takeWhile: "list_all P (takeWhile P xs)"
  by (induction xs) simp_all

lemma startsWith_split: "startsWith s p \<Longrightarrow> s = p @ drop (length p) s"
  by (metis append_take_drop_id startsWith_def)

lemma startsWith_iff: "startsWith s p \<longleftrightarrow> (\<exists>t. s = p @ t)"
  by (metis append_eq_conv_conj startsWith_def startsWith_split)


lemma of_char_toLowerCase_char:
  "is_upper c \<Longrightarrow> (of_char (toLowerCase_char c) :: nat) = of_char c + 32"
proof (cases c)
  case (Char b0 b1 b2 b3 b4 b5 b6 b7)
  assume u: "is_upper c"
  have "\<not> b5"
  proof
    assume b5
    with u Char show False
      by (cases b0; cases b1; cases b2; cases b3; cases b4; cases b6; cases b7)
         (simp_all add: is_upper_def code_unit_def)
  qed
  with u Char show ?thesis
    by (simp add: toLowerCase_char_def)
qed

lemma toLowerCase_char_eq_iff:
  "toLowerCase_char c = toLowerCase_char d \<longleftrightarrow> same_letter c d"
proof -
  have up: "is_upper x \<longleftrightarrow> ((65 \<le> (of_char x :: nat) \<and> (of_char x :: nat) \<le> 90)
       \<or> (192 \<le> (of_char x :: nat) \<and> (of_char x :: nat) \<le> 222 \<and> (of_char x :: nat) \<noteq> 215))" for x
    by (simp add: is_upper_def code_unit_def)
  have inj: "(of_char x :: nat) = of_char y \<longleftrightarrow> x = y" for x y
    by (rule of_char_eq_iff)
  show ?thesis
  proof (cases "is_upper c"; cases "is_upper d")
    assume c: "is_upper c" and d: "is_upper d"
    have "toLowerCase_char c = toLowerCase_char d \<longleftrightarrow>
        (of_char (toLowerCase_char c) :: nat) = of_char (toLowerCase_char d)"
      by (simp add: inj)
    also have "\<dots> \<longleftrightarrow> c = d"
      using c d by (simp add: of_char_toLowerCase_char inj)
    also have "\<dots> \<longleftrightarrow> same_letter c d"
      using c d unfolding same_letter_def lower_of_def up by auto
    finally show ?thesis .
  next
    assume c: "is_upper c" and d: "\<not> is_upper d"
    have "toLowerCase_char c = toLowerCase_char d \<longleftrightarrow>
        (of_char (toLowerCase_char c) :: nat) = of_char d"
      using d by (simp add: inj toLowerCase_char_def)
    also have "\<dots> \<longleftrightarrow> (of_char d :: nat) = of_char c + 32"
      using c by (auto simp: of_char_toLowerCase_char)
    also have "\<dots> \<longleftrightarrow> same_letter c d"
      using c d unfolding same_letter_def lower_of_def up by auto
    finally show ?thesis .
  next
    assume c: "\<not> is_upper c" and d: "is_upper d"
    have "toLowerCase_char c = toLowerCase_char d \<longleftrightarrow>
        (of_char c :: nat) = of_char (toLowerCase_char d)"
      using c by (simp add: inj toLowerCase_char_def)
    also have "\<dots> \<longleftrightarrow> (of_char c :: nat) = of_char d + 32"
      using d by (auto simp: of_char_toLowerCase_char)
    also have "\<dots> \<longleftrightarrow> same_letter c d"
      using c d unfolding same_letter_def lower_of_def up by auto
    finally show ?thesis .
  next
    assume c: "\<not> is_upper c" and d: "\<not> is_upper d"
    then have "toLowerCase_char c = c" "toLowerCase_char d = d"
      by (simp_all add: toLowerCase_char_def)
    moreover have "same_letter c d \<longleftrightarrow> c = d"
      using c d unfolding same_letter_def lower_of_def up by auto
    ultimately show ?thesis by simp
  qed
qed

lemma toLowerCase_eq_iff: "toLowerCase a = toLowerCase b \<longleftrightarrow> same_ignoring_case a b"
proof -
  have "map toLowerCase_char a = map toLowerCase_char b \<longleftrightarrow> list_all2 same_letter a b"
  proof (induction a arbitrary: b)
    case Nil
    show ?case by (cases b) simp_all
  next
    case (Cons x a)
    then show ?case by (cases b) (simp_all add: toLowerCase_char_eq_iff)
  qed
  then show ?thesis
    unfolding toLowerCase_def same_ignoring_case_def .
qed


section \<open>The assignment parser\<close>

lemma match_assignment_complete:
  assumes "assignment_line line target source"
  shows "match_assignment line = Some (target, source)"
proof -
  from assms obtain ws0 ty ws1 ws2 rest where
    e: "line = ws0 @ target @ ''('' @ ty @ '')'' @ ws1 @ '':='' @ ws2 @ source @ ''('' @ rest"
    and ws0: "list_all is_space ws0"
    and tg: "target \<noteq> []" "list_all is_word target"
    and ty: "ty \<noteq> []" "list_all (\<lambda>c. c \<noteq> CHR '')'') ty"
    and ws1: "list_all is_space ws1" and ws2: "list_all is_space ws2"
    and src: "source \<noteq> []" "list_all is_word source"
    unfolding assignment_line_def by blast
  define R7 where "R7 = ''('' @ rest"
  define R6 where "R6 = source @ R7"
  define R5 where "R5 = '':='' @ ws2 @ R6"
  define R4 where "R4 = '')'' @ ws1 @ R5"
  define R3 where "R3 = ty @ R4"
  define R2 where "R2 = ''('' @ R3"
  define R1 where "R1 = target @ R2"
  have line: "line = ws0 @ R1"
    by (simp add: e R1_def R2_def R3_def R4_def R5_def R6_def R7_def)
  have np: "R2 = [] \<or> \<not> is_word (hd R2)" "R7 = [] \<or> \<not> is_word (hd R7)"
    by (simp_all add: R2_def R7_def paren_not_word)
  have a1: "dropWhile is_space line = R1"
    using span_unique [OF ws0 hd_word_not_space [OF tg, of R2]] by (simp add: line R1_def)
  have a2: "takeWhile is_word R1 = target" "dropWhile is_word R1 = R2"
    using span_unique [OF tg(2) np(1)] by (simp_all add: R1_def)
  have a3: "startsWith R2 ''(''" "drop 1 R2 = R3"
    by (simp_all add: R2_def startsWith_def)
  have "R4 = [] \<or> \<not> (hd R4 \<noteq> CHR '')'')" by (simp add: R4_def)
  from span_unique [OF ty(2) this]
  have a4: "takeWhile (\<lambda>c. c \<noteq> CHR '')'') R3 = ty" "dropWhile (\<lambda>c. c \<noteq> CHR '')'') R3 = R4"
    by (simp_all add: R3_def)
  have a5: "startsWith R4 '')''" "drop 1 R4 = ws1 @ R5"
    by (simp_all add: R4_def startsWith_def)
  have "R5 = [] \<or> \<not> is_space (hd R5)" by (simp add: R5_def colon_not_space)
  from span_unique [OF ws1 this]
  have a6: "dropWhile is_space (ws1 @ R5) = R5" by simp
  have a7: "startsWith R5 '':=''" "drop 2 R5 = ws2 @ R6"
    by (simp_all add: R5_def startsWith_def)
  have a8: "dropWhile is_space (ws2 @ R6) = R6"
    using span_unique [OF ws2 hd_word_not_space [OF src, of R7]] by (simp add: R6_def)
  have a9: "takeWhile is_word R6 = source" "dropWhile is_word R6 = R7"
    using span_unique [OF src(2) np(2)] by (simp_all add: R6_def)
  have a10: "startsWith R7 ''(''" by (simp add: R7_def startsWith_def)
  show ?thesis
    unfolding match_assignment_def Let_def a1 a2 a3 a4 a5 a6 a7 a8 a9
    using tg(1) ty(1) src(1) a3(1) a5(1) a7(1) a10 by simp
qed

lemma match_assignment_sound:
  assumes "match_assignment line = Some (target, source)"
  shows "assignment_line line target source"
proof -
  define ws0 where "ws0 = takeWhile is_space line"
  define r1 where "r1 = dropWhile is_space line"
  define tg where "tg = takeWhile is_word r1"
  define r2 where "r2 = dropWhile is_word r1"
  define r3 where "r3 = drop 1 r2"
  define ty where "ty = takeWhile (\<lambda>c. c \<noteq> CHR '')'') r3"
  define r4 where "r4 = dropWhile (\<lambda>c. c \<noteq> CHR '')'') r3"
  define ws1 where "ws1 = takeWhile is_space (drop 1 r4)"
  define r5 where "r5 = dropWhile is_space (drop 1 r4)"
  define ws2 where "ws2 = takeWhile is_space (drop 2 r5)"
  define r6 where "r6 = dropWhile is_space (drop 2 r5)"
  define src where "src = takeWhile is_word r6"
  define r7 where "r7 = dropWhile is_word r6"
  have unfolded: "match_assignment line =
      (if tg = [] \<or> \<not> startsWith r2 ''('' then None
       else if ty = [] \<or> \<not> startsWith r4 '')'' then None
       else if \<not> startsWith r5 '':='' then None
       else if src = [] \<or> \<not> startsWith r7 ''('' then None
       else Some (tg, src))"
    unfolding match_assignment_def Let_def tg_def r1_def r2_def r3_def ty_def r4_def r5_def
      r6_def src_def r7_def by (rule refl)
  have c1: "\<not> (tg = [] \<or> \<not> startsWith r2 ''('')"
    using assms unfolding unfolded by (cases "tg = [] \<or> \<not> startsWith r2 ''(''") simp_all
  have c2: "\<not> (ty = [] \<or> \<not> startsWith r4 '')'')"
    using assms c1 unfolding unfolded by (cases "ty = [] \<or> \<not> startsWith r4 '')''") simp_all
  have c3: "startsWith r5 '':=''"
    using assms c1 c2 unfolding unfolded by (cases "startsWith r5 '':=''") simp_all
  have c4: "\<not> (src = [] \<or> \<not> startsWith r7 ''('')"
    using assms c1 c2 c3 unfolding unfolded by (cases "src = [] \<or> \<not> startsWith r7 ''(''") simp_all
  have res: "target = tg" "source = src"
    using assms c1 c2 c3 c4 unfolding unfolded by simp_all
  have e0: "line = ws0 @ r1" by (simp add: ws0_def r1_def)
  have e1: "r1 = target @ r2" by (simp add: res tg_def r2_def)
  from c1 have e2: "r2 = ''('' @ r3" by (auto simp: startsWith_iff r3_def)
  have e3: "r3 = ty @ r4" by (simp add: ty_def r4_def)
  from c2 obtain t4 where e4: "r4 = '')'' @ t4" by (auto simp: startsWith_iff)
  then have e5: "t4 = ws1 @ r5" by (simp add: ws1_def r5_def)
  from c3 obtain t5 where e6: "r5 = '':='' @ t5" by (auto simp: startsWith_iff)
  then have e7: "t5 = ws2 @ r6" by (simp add: ws2_def r6_def)
  have e8: "r6 = source @ r7" by (simp add: res src_def r7_def)
  from c4 obtain rest where e9: "r7 = ''('' @ rest" by (auto simp: startsWith_iff)
  have "line = ws0 @ target @ ''('' @ ty @ '')'' @ ws1 @ '':='' @ ws2 @ source @ ''('' @ rest"
    by (simp add: e0 e1 e2 e3 e4 e5 e6 e7 e8 e9)
  moreover have "list_all is_space ws0" "list_all is_word target"
    "list_all (\<lambda>c. c \<noteq> CHR '')'') ty" "list_all is_space ws1" "list_all is_space ws2"
    "list_all is_word source"
    by (simp_all add: ws0_def res tg_def ty_def ws1_def ws2_def src_def list_all_takeWhile)
  moreover from c1 c2 c4 res have "target \<noteq> []" "ty \<noteq> []" "source \<noteq> []" by simp_all
  ultimately show ?thesis
    unfolding assignment_line_def by blast
qed

lemma match_assignment_iff:
  "match_assignment line = Some (target, source) \<longleftrightarrow> assignment_line line target source"
  using match_assignment_complete match_assignment_sound by blast

lemma parse_loop_last:
  "parse_loop ls m t = Some s \<longleftrightarrow>
     (\<exists>pre l post. ls = pre @ l # post \<and> match_assignment l = Some (t, s)
        \<and> (\<forall>l'\<in>set post. \<forall>s'. match_assignment l' \<noteq> Some (t, s')))
     \<or> ((\<forall>l'\<in>set ls. \<forall>s'. match_assignment l' \<noteq> Some (t, s')) \<and> m t = Some s)"
proof -
  define N where "N = (\<lambda>ls. \<forall>l'\<in>set ls. \<forall>s'. match_assignment l' \<noteq> Some (t, s'))"
  define A where "A = (\<lambda>ls. \<exists>pre l post. ls = pre @ l # post
      \<and> match_assignment l = Some (t, s) \<and> N post)"
  have N_Cons: "N (l # ls) \<longleftrightarrow> (\<forall>s'. match_assignment l \<noteq> Some (t, s')) \<and> N ls" for l ls
    by (simp add: N_def)
  have A_Nil: "\<not> A []" by (simp add: A_def)
  have A_Cons: "A (l # ls) \<longleftrightarrow> A ls \<or> (match_assignment l = Some (t, s) \<and> N ls)" for l ls
  proof
    assume "A (l # ls)"
    then obtain pre l' post where p: "l # ls = pre @ l' # post"
      "match_assignment l' = Some (t, s)" "N post" unfolding A_def by blast
    show "A ls \<or> (match_assignment l = Some (t, s) \<and> N ls)"
    proof (cases pre)
      case Nil
      with p show ?thesis by simp
    next
      case (Cons a pre')
      with p have "ls = pre' @ l' # post" by simp
      with p(2,3) have "A ls" unfolding A_def by blast
      then show ?thesis ..
    qed
  next
    assume "A ls \<or> (match_assignment l = Some (t, s) \<and> N ls)"
    then show "A (l # ls)"
    proof
      assume "A ls"
      then obtain pre l' post where "ls = pre @ l' # post"
        "match_assignment l' = Some (t, s)" "N post" unfolding A_def by blast
      then have "l # ls = (l # pre) @ l' # post \<and> match_assignment l' = Some (t, s) \<and> N post"
        by simp
      then show ?thesis unfolding A_def by blast
    next
      assume "match_assignment l = Some (t, s) \<and> N ls"
      then have "l # ls = [] @ l # ls \<and> match_assignment l = Some (t, s) \<and> N ls" by simp
      then show ?thesis unfolding A_def by blast
    qed
  qed
  have "parse_loop ls m t = Some s \<longleftrightarrow> A ls \<or> (N ls \<and> m t = Some s)"
  proof (induction ls arbitrary: m)
    case Nil
    then show ?case by (simp add: A_Nil N_def)
  next
    case (Cons l ls)
    show ?case
    proof (cases "match_assignment l")
      case None
      then have "parse_loop (l # ls) m = parse_loop ls m" by simp
      moreover from None have "N (l # ls) = N ls" "A (l # ls) = A ls"
        by (simp_all add: N_Cons A_Cons)
      ultimately show ?thesis using Cons.IH [of m] by simp
    next
      case (Some ts)
      obtain t0 s0 where ts: "ts = (t0, s0)" by (cases ts)
      from Some ts have "assignment_line l t0 s0" by (simp add: match_assignment_iff)
      then have nonempty: "t0 \<noteq> []" "s0 \<noteq> []" by (auto simp: assignment_line_def)
      define m' where "m' = m(t0 \<mapsto> s0)"
      from Some ts nonempty have step: "parse_loop (l # ls) m = parse_loop ls m'"
        by (simp add: m'_def)
      note ih = Cons.IH [of m']
      show ?thesis
      proof (cases "t0 = t")
        case True
        with Some ts have n: "\<not> N (l # ls)" and a: "A (l # ls) \<longleftrightarrow> A ls \<or> (s0 = s \<and> N ls)"
          by (simp_all add: N_Cons A_Cons)
        from True have "m' t = Some s0" by (simp add: m'_def)
        with ih have "parse_loop ls m' t = Some s \<longleftrightarrow> A ls \<or> (N ls \<and> s0 = s)"
          by simp
        with n a show ?thesis unfolding step by blast
      next
        case False
        with Some ts have n: "N (l # ls) = N ls" and a: "A (l # ls) = A ls"
          by (simp_all add: N_Cons A_Cons)
        from False have "m' t = m t" by (simp add: m'_def)
        with ih have "parse_loop ls m' t = Some s \<longleftrightarrow> A ls \<or> (N ls \<and> m t = Some s)"
          by simp
        with n a show ?thesis unfolding step by blast
      qed
    qed
  qed
  then show ?thesis unfolding A_def N_def .
qed

text \<open>
  Claim C9. In the map that \<^verbatim>\<open>parseVariableAssignments\<close> builds from a text, a name \<open>t\<close> has
  the entry \<open>s\<close> exactly when some line of the text has the assignment shape with target \<open>t\<close>
  and source \<open>s\<close> and no later line has that shape with target \<open>t\<close>: every line of the
  shape sets the entry of its target, the last one wins, and the other lines change
  nothing.
\<close>

theorem parse_last_assignment_wins:
  "parseVariableAssignments text t = Some s \<longleftrightarrow>
     (\<exists>pre l post. split_lines text = pre @ l # post \<and> assignment_line l t s
        \<and> (\<forall>l'\<in>set post. \<forall>s'. \<not> assignment_line l' t s'))"
  by (simp add: parseVariableAssignments_def parse_loop_last match_assignment_iff)

lemma reassigned_lines:
  "split_lines reassigned_text = [''x(T) := a(T)'', ''RETURN x'', '' x(T):=b(T)'']"
  by (simp add: reassigned_text_def code_unit_def)

lemma reassigned_parse: "parseVariableAssignments reassigned_text ''x'' = Some ''b''"
  by (simp add: parseVariableAssignments_def reassigned_lines match_assignment_def char_class_simps)

text \<open>In the example text the second assignment to \<open>x\<close> replaces the first.\<close>

theorem parse_reassigned_text:
  "parseVariableAssignments reassigned_text ''x'' = Some ''b''
   \<and> (\<exists>pre l post. split_lines reassigned_text = pre @ l # post \<and> assignment_line l ''x'' ''b''
        \<and> (\<forall>l'\<in>set post. \<forall>s'. \<not> assignment_line l' ''x'' s'))
   \<and> parseVariableAssignments reassigned_text ''x'' \<noteq> Some ''a''"
  using parse_last_assignment_wins [of reassigned_text "''x''" "''b''"] reassigned_parse
  by simp


section \<open>The heuristics\<close>

lemma find_first_with: "List.find P xs = Some x \<longleftrightarrow> first_with P xs x"
proof (induction xs)
  case Nil
  then show ?case by (simp add: first_with_def)
next
  case (Cons a xs)
  show ?case
  proof (cases "P a")
    case True
    have "first_with P (a # xs) x \<longleftrightarrow> a = x"
    proof
      assume "first_with P (a # xs) x"
      then obtain pre post where p: "a # xs = pre @ x # post" "P x" "list_all (\<lambda>y. \<not> P y) pre"
        unfolding first_with_def by blast
      with True show "a = x" by (cases pre) auto
    next
      assume "a = x"
      with True have "a # xs = [] @ x # xs \<and> P x \<and> list_all (\<lambda>y. \<not> P y) []" by simp
      then show "first_with P (a # xs) x" unfolding first_with_def by blast
    qed
    with True show ?thesis by simp
  next
    case False
    have "first_with P (a # xs) x \<longleftrightarrow> first_with P xs x"
    proof
      assume "first_with P (a # xs) x"
      then obtain pre post where p: "a # xs = pre @ x # post" "P x" "list_all (\<lambda>y. \<not> P y) pre"
        unfolding first_with_def by blast
      with False obtain pre' where "pre = a # pre'" by (cases pre) auto
      with p have "xs = pre' @ x # post \<and> P x \<and> list_all (\<lambda>y. \<not> P y) pre'" by simp
      then show "first_with P xs x" unfolding first_with_def by blast
    next
      assume "first_with P xs x"
      then obtain pre post where p: "xs = pre @ x # post" "P x" "list_all (\<lambda>y. \<not> P y) pre"
        unfolding first_with_def by blast
      with False have "a # xs = (a # pre) @ x # post \<and> P x \<and> list_all (\<lambda>y. \<not> P y) (a # pre)"
        by simp
      then show "first_with P (a # xs) x" unfolding first_with_def by blast
    qed
    with False Cons.IH show ?thesis by simp
  qed
qed

lemma InterfaceNameHeuristic_loop_filter:
  "expected \<noteq> [] \<Longrightarrow>
     InterfaceNameHeuristic_loop expected es ms = ms @ map matchOf (filter (namedLike expected) es)"
proof (induction es arbitrary: ms)
  case Nil
  then show ?case by simp
next
  case (Cons e es)
  from Cons.prems have "toLowerCase [] \<noteq> toLowerCase expected"
    by (simp add: toLowerCase_def)
  with Cons show ?case
    by (simp add: namedLike_def matchOf_def Let_def toLowerCase_eq_iff [symmetric]
        split: option.split)
qed

lemma match_function_iff:
  "startsWith abiEntry ''function '' \<and> match_function abiEntry = Some fname
     \<longleftrightarrow> function_entry abiEntry fname"
proof
  assume a: "startsWith abiEntry ''function '' \<and> match_function abiEntry = Some fname"
  define r1 where "r1 = drop 8 abiEntry"
  define ws where "ws = takeWhile is_space r1"
  define r2 where "r2 = dropWhile is_space r1"
  define r3 where "r3 = dropWhile is_word r2"
  from a obtain t where t: "abiEntry = ''function '' @ t"
    by (auto simp: startsWith_iff)
  then have sw: "startsWith abiEntry ''function''"
    by (simp add: startsWith_def)
  with a have m: "ws \<noteq> []" "fname = takeWhile is_word r2" "fname \<noteq> []" "startsWith r3 ''(''"
    by (auto simp: match_function_def Let_def r1_def ws_def r2_def r3_def split: if_splits)
  from t have r1: "r1 = CHR '' '' # t" by (simp add: r1_def)
  then have hd: "hd ws = CHR '' ''"
    by (simp add: ws_def space_is_space)
  have e1: "abiEntry = ''function'' @ r1" by (simp add: t r1)
  have e2: "r1 = ws @ r2" by (simp add: ws_def r2_def)
  have e3: "r2 = fname @ r3" by (simp add: m(2) r3_def)
  from m(4) obtain rest where e4: "r3 = ''('' @ rest" by (auto simp: startsWith_iff)
  have "abiEntry = ''function'' @ ws @ fname @ ''('' @ rest"
    using e1 e2 e3 e4 by simp
  moreover have "list_all is_space ws" by (simp add: ws_def list_all_takeWhile)
  moreover have "list_all is_word fname" by (simp add: m(2) list_all_takeWhile)
  ultimately show "function_entry abiEntry fname"
    using m(1,3) hd unfolding function_entry_def by blast
next
  assume "function_entry abiEntry fname"
  then obtain ws rest where
    e: "abiEntry = ''function'' @ ws @ fname @ ''('' @ rest"
    and ws: "ws \<noteq> []" "hd ws = CHR '' ''" "list_all is_space ws"
    and fn: "fname \<noteq> []" "list_all is_word fname"
    unfolding function_entry_def by blast
  from ws obtain ws' where ws': "ws = CHR '' '' # ws'" by (cases ws) auto
  from e have r1: "drop 8 abiEntry = ws @ (fname @ ''('' @ rest)" by simp
  from fn have "is_word (hd (fname @ ''('' @ rest))" by (cases fname) auto
  then have nsp: "fname @ ''('' @ rest = [] \<or> \<not> is_space (hd (fname @ ''('' @ rest))"
    by (simp add: is_word_not_space)
  from span_unique [OF ws(3) nsp]
  have t1: "takeWhile is_space (drop 8 abiEntry) = ws"
    and d1: "dropWhile is_space (drop 8 abiEntry) = fname @ (''('' @ rest)"
    by (simp_all add: r1)
  have "''('' @ rest = [] \<or> \<not> is_word (hd (''('' @ rest))" by (simp add: paren_not_word)
  from span_unique [OF fn(2) this]
  have t2: "takeWhile is_word (fname @ (''('' @ rest)) = fname"
    and d2: "dropWhile is_word (fname @ (''('' @ rest)) = ''('' @ rest"
    by simp_all
  have s1: "startsWith abiEntry ''function''" by (simp add: e startsWith_def)
  have s2: "startsWith abiEntry ''function ''" by (simp add: e ws' startsWith_def)
  have "match_function abiEntry = Some fname"
    unfolding match_function_def Let_def t1 d1 t2 d2
    using s1 ws(1) fn(1) by (simp add: startsWith_def)
  with s2 show "startsWith abiEntry ''function '' \<and> match_function abiEntry = Some fname" by simp
qed

lemma isCalledFunction_iff: "isCalledFunction functionName abiEntry \<longleftrightarrow> function_entry abiEntry functionName"
  using match_function_iff [of abiEntry functionName]
  by (auto simp: isCalledFunction_def split: option.splits)

lemma FunctionSignatureHeuristic_loop_filter:
  "FunctionSignatureHeuristic_loop functionName abiOf es ms =
     ms @ map matchOf (filter (exposes abiOf functionName) es)"
proof (induction es arbitrary: ms)
  case Nil
  then show ?case by simp
next
  case (Cons e es)
  have "list_ex (isCalledFunction functionName) abi
      = list_ex (\<lambda>abiEntry. function_entry abiEntry functionName) abi" for abi
    by (simp add: list_ex_iff isCalledFunction_iff)
  with Cons show ?case
    by (simp add: exposes_def matchOf_def Let_def split: option.split)
qed

lemma VariableChainHeuristic_apply_Some:
  assumes "VariableChainHeuristic_apply c = Some r"
  shows "\<exists>v cn. r = \<lparr>matches = [\<lparr>m_address = v, contractName = cn\<rparr>], confidence = 100\<rparr>
           \<and> startsWith v ''eth:''"
  using assms
  by (auto simp: VariableChainHeuristic_apply_def Let_def
      split: if_splits option.splits ContractValue.splits)

lemma VariableChainHeuristic_apply_value:
  assumes "VariableChainHeuristic_apply c = Some r"
  shows "\<exists>contract vs v. first_with (is_caller c) (entries (discovered c)) contract
           \<and> values contract = Some vs
           \<and> vs (resolveVariableChain (storageVariable (call c)) (variableAssignments c))
               = Some (VString v)
           \<and> startsWith v ''eth:'' \<and> map m_address (matches r) = [v]"
proof -
  let ?rv = "resolveVariableChain (storageVariable (call c)) (variableAssignments c)"
  from assms obtain contract where
    f: "List.find (is_caller c) (entries (discovered c)) = Some contract"
    by (auto simp: VariableChainHeuristic_apply_def Let_def is_caller_def [abs_def]
        split: if_splits option.splits)
  with assms obtain vs where vs: "values contract = Some vs"
    by (auto simp: VariableChainHeuristic_apply_def Let_def is_caller_def [abs_def]
        split: if_splits option.splits)
  with assms f obtain v where v: "vs ?rv = Some (VString v)" "startsWith v ''eth:''"
    "map m_address (matches r) = [v]"
    by (auto simp: VariableChainHeuristic_apply_def Let_def is_caller_def [abs_def]
        split: if_splits option.splits ContractValue.splits)
  from f have "first_with (is_caller c) (entries (discovered c)) contract"
    by (simp add: find_first_with)
  with vs v show ?thesis by (intro exI [of _ contract] exI [of _ vs] exI [of _ v]) simp
qed

lemma InterfaceNameHeuristic_apply_Some:
  assumes "InterfaceNameHeuristic_apply c = Some r"
  shows "matches r \<noteq> []
    \<and> confidence r = InterfaceNameHeuristic_calculateConfidence (length (matches r))"
  using assms by (auto simp: InterfaceNameHeuristic_apply_def Let_def split: if_splits)

lemma FunctionSignatureHeuristic_apply_Some:
  assumes "FunctionSignatureHeuristic_apply c = Some r"
  shows "matches r \<noteq> []
    \<and> confidence r = FunctionSignatureHeuristic_calculateConfidence (length (matches r))"
  using assms by (auto simp: FunctionSignatureHeuristic_apply_def Let_def split: if_splits)

lemma FunctionSignature_steps:
  "n \<noteq> 0 \<Longrightarrow>
     (n = 1 \<and> FunctionSignatureHeuristic_calculateConfidence n = 99)
     \<or> (n = 2 \<and> FunctionSignatureHeuristic_calculateConfidence n = 50)
     \<or> (3 \<le> n \<and> FunctionSignatureHeuristic_calculateConfidence n = 30)"
  unfolding FunctionSignatureHeuristic_calculateConfidence_def by (cases "n = 1"; cases "n = 2") auto

lemma InterfaceName_steps:
  "n \<noteq> 0 \<Longrightarrow>
     (n = 1 \<and> InterfaceNameHeuristic_calculateConfidence n = 90)
     \<or> (n = 2 \<and> InterfaceNameHeuristic_calculateConfidence n = 60)
     \<or> (3 \<le> n \<and> InterfaceNameHeuristic_calculateConfidence n = 40)"
  unfolding InterfaceNameHeuristic_calculateConfidence_def by (cases "n = 1"; cases "n = 2") auto

lemma scenario_walk:
  "resolveVariableChain ''tmCached'' [''tmCached'' \<mapsto> ''troveManager''] = ''troveManager''"
  by (simp add: resolveVariableChain_def loop_unfold)

lemma scenario_variable_chain:
  "VariableChainHeuristic_apply (scenario_context ''eth:0xabcd'') =
     Some \<lparr>matches = [\<lparr>m_address = ''eth:0xabcd'', contractName = Some ''TroveManager''\<rparr>],
           confidence = 100\<rparr>"
  by (simp add: VariableChainHeuristic_apply_def scenario_context_def scenario_entries_def
      scenario_walk char_class_simps)

lemma scenario_interface_name:
  "InterfaceNameHeuristic_apply (scenario_context v) =
     Some \<lparr>matches = [\<lparr>m_address = ''eth:0xAbCd'', contractName = Some ''TroveManager''\<rparr>],
           confidence = 90\<rparr>"
  by (simp add: InterfaceNameHeuristic_apply_def scenario_context_def scenario_entries_def
      InterfaceNameHeuristic_calculateConfidence_def char_class_simps)

lemma recased_interface_name:
  "InterfaceNameHeuristic_apply (unknown_context ''ItroveMANAGER'') =
     Some \<lparr>matches = [\<lparr>m_address = ''eth:0xAbCd'', contractName = Some ''TroveManager''\<rparr>],
           confidence = 90\<rparr>"
  by (simp add: InterfaceNameHeuristic_apply_def unknown_context_def scenario_entries_def
      InterfaceNameHeuristic_calculateConfidence_def char_class_simps)

lemma scenario_function_signature:
  "FunctionSignatureHeuristic_apply (scenario_context v) =
     Some \<lparr>matches = [\<lparr>m_address = ''eth:0xAbCd'', contractName = Some ''TroveManager''\<rparr>],
           confidence = 99\<rparr>"
  by (simp add: FunctionSignatureHeuristic_apply_def scenario_context_def scenario_entries_def
      scenario_abis_def FunctionSignatureHeuristic_calculateConfidence_def isCalledFunction_def
      match_function_def char_class_simps)

text \<open>
  Claim C2. Whenever a heuristic returns a result, its confidence is the step function of
  the number of its matches: 99, 50 and 30 for one, two and three or more matches of the
  function-signature heuristic; 90, 60 and 40 for the interface-name heuristic; and always
  100 for the variable-chain heuristic.
\<close>

theorem confidence_step_functions:
  "(FunctionSignatureHeuristic_apply c = Some r1 \<longrightarrow>
      (length (matches r1) = 1 \<and> confidence r1 = 99)
      \<or> (length (matches r1) = 2 \<and> confidence r1 = 50)
      \<or> (3 \<le> length (matches r1) \<and> confidence r1 = 30))
   \<and> (InterfaceNameHeuristic_apply c = Some r2 \<longrightarrow>
      (length (matches r2) = 1 \<and> confidence r2 = 90)
      \<or> (length (matches r2) = 2 \<and> confidence r2 = 60)
      \<or> (3 \<le> length (matches r2) \<and> confidence r2 = 40))
   \<and> (VariableChainHeuristic_apply c = Some r3 \<longrightarrow> confidence r3 = 100)"
proof (intro conjI impI)
  assume "FunctionSignatureHeuristic_apply c = Some r1"
  from FunctionSignatureHeuristic_apply_Some [OF this]
  show "(length (matches r1) = 1 \<and> confidence r1 = 99)
      \<or> (length (matches r1) = 2 \<and> confidence r1 = 50)
      \<or> (3 \<le> length (matches r1) \<and> confidence r1 = 30)"
    using FunctionSignature_steps [of "length (matches r1)"] by simp
next
  assume "InterfaceNameHeuristic_apply c = Some r2"
  from InterfaceNameHeuristic_apply_Some [OF this]
  show "(length (matches r2) = 1 \<and> confidence r2 = 90)
      \<or> (length (matches r2) = 2 \<and> confidence r2 = 60)
      \<or> (3 \<le> length (matches r2) \<and> confidence r2 = 40)"
    using InterfaceName_steps [of "length (matches r2)"] by simp
next
  assume "VariableChainHeuristic_apply c = Some r3"
  from VariableChainHeuristic_apply_Some [OF this]
  show "confidence r3 = 100" by auto
qed

text \<open>
  On the example graph the three heuristics have one match each, with confidences 99, 90
  and 100.
\<close>

theorem confidence_steps_on_scenario:
  "FunctionSignatureHeuristic_apply (scenario_context ''eth:0xabcd'') =
      Some \<lparr>matches = [\<lparr>m_address = ''eth:0xAbCd'', contractName = Some ''TroveManager''\<rparr>],
            confidence = 99\<rparr>
   \<and> InterfaceNameHeuristic_apply (scenario_context ''eth:0xabcd'') =
      Some \<lparr>matches = [\<lparr>m_address = ''eth:0xAbCd'', contractName = Some ''TroveManager''\<rparr>],
            confidence = 90\<rparr>
   \<and> VariableChainHeuristic_apply (scenario_context ''eth:0xabcd'') =
      Some \<lparr>matches = [\<lparr>m_address = ''eth:0xabcd'', contractName = Some ''TroveManager''\<rparr>],
            confidence = 100\<rparr>"
proof -
  obtain r1 where r1: "FunctionSignatureHeuristic_apply (scenario_context ''eth:0xabcd'') = Some r1"
    and m1: "matches r1 = [\<lparr>m_address = ''eth:0xAbCd'', contractName = Some ''TroveManager''\<rparr>]"
    by (simp add: scenario_function_signature)
  obtain r2 where r2: "InterfaceNameHeuristic_apply (scenario_context ''eth:0xabcd'') = Some r2"
    and m2: "matches r2 = [\<lparr>m_address = ''eth:0xAbCd'', contractName = Some ''TroveManager''\<rparr>]"
    by (simp add: scenario_interface_name)
  obtain r3 where r3: "VariableChainHeuristic_apply (scenario_context ''eth:0xabcd'') = Some r3"
    and m3: "matches r3 = [\<lparr>m_address = ''eth:0xabcd'', contractName = Some ''TroveManager''\<rparr>]"
    by (simp add: scenario_variable_chain)
  from confidence_step_functions [of "scenario_context ''eth:0xabcd''" r1 r2 r3] r1 r2 r3 m1 m2 m3
  have "confidence r1 = 99" "confidence r2 = 90" "confidence r3 = 100" by simp_all
  with m1 m2 m3 have "r1 = \<lparr>matches = [\<lparr>m_address = ''eth:0xAbCd'', contractName = Some ''TroveManager''\<rparr>],
            confidence = 99\<rparr>"
    "r2 = \<lparr>matches = [\<lparr>m_address = ''eth:0xAbCd'', contractName = Some ''TroveManager''\<rparr>],
            confidence = 90\<rparr>"
    "r3 = \<lparr>matches = [\<lparr>m_address = ''eth:0xabcd'', contractName = Some ''TroveManager''\<rparr>],
            confidence = 100\<rparr>"
    by simp_all
  with r1 r2 r3 show ?thesis by simp
qed

text \<open>
  Claim C6. When the walk ends at another name than the call's \<^verbatim>\<open>storageVariable\<close>, the
  caller is found in the graph (the first entry of type \<^verbatim>\<open>Contract\<close> with its address, letter
  case apart), and its recorded value for the name reached is a string that starts with
  \<^verbatim>\<open>eth:\<close>, the heuristic returns one match with that string as its address and
  confidence 100. The match has no contract name when no entry of the graph has that
  address, and the name of the first entry with that address otherwise.
\<close>

theorem variable_chain_single_match:
  assumes walk: "resolveVariableChain (storageVariable (call c)) (variableAssignments c) = rv"
    and progress: "rv \<noteq> storageVariable (call c)"
    and caller: "first_with (is_caller c) (entries (discovered c)) contract"
    and recorded: "values contract = Some vs" "vs rv = Some (VString v)"
    and formatted: "startsWith v ''eth:''"
  shows "\<exists>cn. VariableChainHeuristic_apply c =
            Some \<lparr>matches = [\<lparr>m_address = v, contractName = cn\<rparr>], confidence = 100\<rparr>
          \<and> (list_all (\<lambda>e. toLowerCase (address e) \<noteq> toLowerCase v) (entries (discovered c))
               \<longrightarrow> cn = None)
          \<and> (\<forall>e. first_with (\<lambda>e. toLowerCase (address e) = toLowerCase v)
                    (entries (discovered c)) e \<longrightarrow> cn = name e)"
proof -
  let ?P = "\<lambda>e. toLowerCase (address e) = toLowerCase v"
  let ?cn = "case List.find ?P (entries (discovered c)) of None \<Rightarrow> None | Some e \<Rightarrow> name e"
  from caller have f: "List.find (\<lambda>e. toLowerCase (address e) = toLowerCase (callerContractAddress c)
      \<and> type e = ''Contract'') (entries (discovered c)) = Some contract"
    using find_first_with [of "is_caller c" "entries (discovered c)" contract]
    by (simp add: is_caller_def [abs_def])
  have ap: "VariableChainHeuristic_apply c =
      Some \<lparr>matches = [\<lparr>m_address = v, contractName = ?cn\<rparr>], confidence = 100\<rparr>"
    using walk progress f recorded formatted
    by (simp add: VariableChainHeuristic_apply_def Let_def)
  have none: "list_all (\<lambda>e. \<not> ?P e) (entries (discovered c)) \<longrightarrow> ?cn = None"
    by (auto simp: list_all_iff find_None_iff split: option.splits dest: find_Some_iff [THEN iffD1])
  have some: "\<forall>e. first_with ?P (entries (discovered c)) e \<longrightarrow> ?cn = name e"
    by (simp add: find_first_with [symmetric])
  from ap none some show ?thesis by blast
qed

lemma scenario_caller:
  "first_with (is_caller (scenario_context v)) (entries (discovered (scenario_context v)))
     \<lparr>address = ''eth:0xAA'', name = Some ''Borrower'', type = ''Contract'',
       values = Some [''troveManager'' \<mapsto> VString v]\<rparr>"
  unfolding find_first_with [symmetric]
  by (simp add: is_caller_def scenario_context_def scenario_entries_def char_class_simps)

text \<open>
  On the example graph the match carries the recorded value and the name of the entry with
  that address; with a recorded address that no entry has, the match has no name.
\<close>

theorem chain_match_on_scenario:
  "VariableChainHeuristic_apply (scenario_context ''eth:0xabcd'') =
      Some \<lparr>matches = [\<lparr>m_address = ''eth:0xabcd'', contractName = Some ''TroveManager''\<rparr>],
            confidence = 100\<rparr>
   \<and> VariableChainHeuristic_apply (scenario_context ''eth:0x1234'') =
      Some \<lparr>matches = [\<lparr>m_address = ''eth:0x1234'', contractName = None\<rparr>],
            confidence = 100\<rparr>"
proof
  let ?c = "scenario_context ''eth:0xabcd''"
  have walk: "resolveVariableChain (storageVariable (call ?c)) (variableAssignments ?c) = ''troveManager''"
    by (simp add: scenario_context_def scenario_walk)
  have progress: "''troveManager'' \<noteq> storageVariable (call ?c)"
    by (simp add: scenario_context_def)
  have target: "first_with (\<lambda>e. toLowerCase (address e) = toLowerCase ''eth:0xabcd'')
      (entries (discovered ?c))
      \<lparr>address = ''eth:0xAbCd'', name = Some ''TroveManager'', type = ''Contract'', values = None\<rparr>"
    unfolding find_first_with [symmetric]
    by (simp add: scenario_context_def scenario_entries_def char_class_simps)
  from variable_chain_single_match [OF walk progress scenario_caller, of _ "''eth:0xabcd''"] target
  show "VariableChainHeuristic_apply ?c =
      Some \<lparr>matches = [\<lparr>m_address = ''eth:0xabcd'', contractName = Some ''TroveManager''\<rparr>],
            confidence = 100\<rparr>"
    by (auto simp: startsWith_def)
next
  let ?c = "scenario_context ''eth:0x1234''"
  have walk: "resolveVariableChain (storageVariable (call ?c)) (variableAssignments ?c) = ''troveManager''"
    by (simp add: scenario_context_def scenario_walk)
  have progress: "''troveManager'' \<noteq> storageVariable (call ?c)"
    by (simp add: scenario_context_def)
  have absent: "list_all (\<lambda>e. toLowerCase (address e) \<noteq> toLowerCase ''eth:0x1234'')
      (entries (discovered ?c))"
    by (simp add: scenario_context_def scenario_entries_def char_class_simps)
  from variable_chain_single_match [OF walk progress scenario_caller, of _ "''eth:0x1234''"] absent
  show "VariableChainHeuristic_apply ?c =
      Some \<lparr>matches = [\<lparr>m_address = ''eth:0x1234'', contractName = None\<rparr>],
            confidence = 100\<rparr>"
    by (auto simp: startsWith_def)
qed

text \<open>
  Claim C7. The interface-name heuristic returns nothing when the interface type is
  \<^verbatim>\<open>I\<close> or does not start with \<^verbatim>\<open>I\<close>. Otherwise its matches are, in the order of the
  graph, the entries of type \<^verbatim>\<open>Contract\<close> whose name is the interface type without its first
  letter, letter case apart (equal up to the two forms of each letter, position by
  position); it returns nothing when there is none.
\<close>

theorem interface_name_candidates:
  "(interfaceType (call c) = ''I'' \<or> \<not> startsWith (interfaceType (call c)) ''I'' \<longrightarrow>
      InterfaceNameHeuristic_apply c = None)
   \<and> (interfaceType (call c) \<noteq> ''I'' \<and> startsWith (interfaceType (call c)) ''I'' \<longrightarrow>
      InterfaceNameHeuristic_apply c =
        (let candidates = map matchOf (filter (namedLike (drop 1 (interfaceType (call c))))
                                         (entries (discovered c)))
         in if candidates = [] then None
            else Some \<lparr>matches = candidates,
                       confidence = InterfaceNameHeuristic_calculateConfidence (length candidates)\<rparr>))"
proof (intro conjI impI)
  assume "interfaceType (call c) = ''I'' \<or> \<not> startsWith (interfaceType (call c)) ''I''"
  then show "InterfaceNameHeuristic_apply c = None"
    by (auto simp: InterfaceNameHeuristic_apply_def Let_def)
next
  assume a: "interfaceType (call c) \<noteq> ''I'' \<and> startsWith (interfaceType (call c)) ''I''"
  then obtain t where t: "interfaceType (call c) = ''I'' @ t" by (auto simp: startsWith_iff)
  with a have ne: "t \<noteq> []" by auto
  with t have len: "\<not> length (interfaceType (call c)) \<le> 1" and dr: "drop 1 (interfaceType (call c)) = t"
    by simp_all
  from a len dr ne show "InterfaceNameHeuristic_apply c =
        (let candidates = map matchOf (filter (namedLike (drop 1 (interfaceType (call c))))
                                         (entries (discovered c)))
         in if candidates = [] then None
            else Some \<lparr>matches = candidates,
                       confidence = InterfaceNameHeuristic_calculateConfidence (length candidates)\<rparr>)"
    by (simp add: InterfaceNameHeuristic_apply_def Let_def InterfaceNameHeuristic_loop_filter)
qed

text \<open>
  The interface types \<^verbatim>\<open>I\<close> and \<^verbatim>\<open>Vault\<close> give nothing. \<^verbatim>\<open>ITroveManager\<close> and, in another
  letter case, \<^verbatim>\<open>ItroveMANAGER\<close> give the contract named \<^verbatim>\<open>TroveManager\<close>, and not the
  entry of another type named \<^verbatim>\<open>trovemanager\<close>; \<^verbatim>\<open>ITroveManagr\<close> gives nothing.
\<close>

theorem interface_name_on_scenario:
  "InterfaceNameHeuristic_apply (unknown_context ''I'') = None
   \<and> InterfaceNameHeuristic_apply (unknown_context ''Vault'') = None
   \<and> InterfaceNameHeuristic_apply (scenario_context ''eth:0xabcd'') =
       Some \<lparr>matches = [\<lparr>m_address = ''eth:0xAbCd'', contractName = Some ''TroveManager''\<rparr>],
             confidence = 90\<rparr>
   \<and> InterfaceNameHeuristic_apply (unknown_context ''ItroveMANAGER'') =
       Some \<lparr>matches = [\<lparr>m_address = ''eth:0xAbCd'', contractName = Some ''TroveManager''\<rparr>],
             confidence = 90\<rparr>
   \<and> InterfaceNameHeuristic_apply (unknown_context ''ITroveManagr'') = None"
proof (intro conjI)
  show "InterfaceNameHeuristic_apply (unknown_context ''I'') = None"
    using interface_name_candidates [of "unknown_context ''I''"]
    by (simp add: unknown_context_def)
  show "InterfaceNameHeuristic_apply (unknown_context ''Vault'') = None"
    using interface_name_candidates [of "unknown_context ''Vault''"]
    by (simp add: unknown_context_def startsWith_def)
  show "InterfaceNameHeuristic_apply (scenario_context ''eth:0xabcd'') =
       Some \<lparr>matches = [\<lparr>m_address = ''eth:0xAbCd'', contractName = Some ''TroveManager''\<rparr>],
             confidence = 90\<rparr>"
    using interface_name_candidates [of "scenario_context ''eth:0xabcd''"]
    by (simp add: scenario_context_def scenario_entries_def namedLike_def matchOf_def
        InterfaceNameHeuristic_calculateConfidence_def startsWith_def
        same_ignoring_case_def same_letter_def lower_of_def)
  show "InterfaceNameHeuristic_apply (unknown_context ''ItroveMANAGER'') =
       Some \<lparr>matches = [\<lparr>m_address = ''eth:0xAbCd'', contractName = Some ''TroveManager''\<rparr>],
             confidence = 90\<rparr>"
    using interface_name_candidates [of "unknown_context ''ItroveMANAGER''"]
      recased_interface_name
    by (simp add: unknown_context_def scenario_entries_def namedLike_def matchOf_def
        InterfaceNameHeuristic_calculateConfidence_def startsWith_def
        same_ignoring_case_def same_letter_def lower_of_def)
  show "InterfaceNameHeuristic_apply (unknown_context ''ITroveManagr'') = None"
    using interface_name_candidates [of "unknown_context ''ITroveManagr''"]
    by (simp add: unknown_context_def scenario_entries_def namedLike_def matchOf_def
        startsWith_def same_ignoring_case_def same_letter_def lower_of_def)
qed

text \<open>
  Claim C8. The matches of the function-signature heuristic are, in the order of the graph,
  the entries of type \<^verbatim>\<open>Contract\<close> whose ABI holds an entry of the function shape with
  exactly the called function's name; it returns nothing when there is none. An ABI entry
  that does not start with \<^verbatim>\<open>function\<close> and a space is never counted.
\<close>

theorem function_signature_candidates:
  "FunctionSignatureHeuristic_apply c =
     (let candidates = map matchOf (filter (exposes (abis (discovered c)) (calledFunction (call c)))
                                      (entries (discovered c)))
      in if candidates = [] then None
         else Some \<lparr>matches = candidates,
                    confidence = FunctionSignatureHeuristic_calculateConfidence (length candidates)\<rparr>)
   \<and> (\<not> startsWith abiEntry ''function '' \<longrightarrow>
        \<not> isCalledFunction (calledFunction (call c)) abiEntry
        \<and> \<not> function_entry abiEntry (calledFunction (call c)))"
proof -
  have "\<not> isCalledFunction f abiEntry" if "\<not> startsWith abiEntry ''function ''" for f
    using that by (simp add: isCalledFunction_def)
  then show ?thesis
    by (simp add: FunctionSignatureHeuristic_apply_def Let_def
        FunctionSignatureHeuristic_loop_filter isCalledFunction_iff)
qed

text \<open>
  On the example graph only the contract with \<^verbatim>\<open>function liquidate(uint256)\<close> is a match; the
  contract with an event of that name and a function \<^verbatim>\<open>Liquidate\<close> is not.
\<close>

theorem function_signature_on_scenario:
  "FunctionSignatureHeuristic_apply (scenario_context ''eth:0xabcd'') =
       Some \<lparr>matches = [\<lparr>m_address = ''eth:0xAbCd'', contractName = Some ''TroveManager''\<rparr>],
             confidence = 99\<rparr>
   \<and> \<not> isCalledFunction ''liquidate'' ''event liquidate(uint256)''
   \<and> \<not> function_entry ''event liquidate(uint256)'' ''liquidate''"
proof -
  have "exposes scenario_abis ''liquidate'' e \<longleftrightarrow>
      type e = ''Contract'' \<and> (case scenario_abis (address e) of None \<Rightarrow> False
        | Some abi \<Rightarrow> list_ex (isCalledFunction ''liquidate'') abi)" for e
    by (simp add: exposes_def list_ex_iff isCalledFunction_iff split: option.split)
  then have cands: "filter (exposes scenario_abis ''liquidate'') (scenario_entries ''eth:0xabcd'') =
      [\<lparr>address = ''eth:0xAbCd'', name = Some ''TroveManager'', type = ''Contract'', values = None\<rparr>]"
    by (simp add: scenario_entries_def scenario_abis_def isCalledFunction_def match_function_def
        char_class_simps)
  have ev: "\<not> startsWith ''event liquidate(uint256)'' ''function ''"
    by (simp add: startsWith_def)
  from function_signature_candidates [of "scenario_context ''eth:0xabcd''" "''event liquidate(uint256)''"]
    cands ev
  show ?thesis
    by (simp add: scenario_context_def matchOf_def FunctionSignatureHeuristic_calculateConfidence_def)
qed

lemma find_recased:
  assumes "list_all2 recased_entry es es'"
    and "\<And>e e'. recased_entry e e' \<Longrightarrow> P e = P' e'"
  shows "rel_option recased_entry (List.find P es) (List.find P' es')"
  using assms by (induction es es' rule: list_all2_induct) auto

lemma recased_scenario:
  "VariableChainHeuristic_apply recased_context =
     Some \<lparr>matches = [\<lparr>m_address = ''eth:0xABCD'', contractName = Some ''TroveManager''\<rparr>],
           confidence = 100\<rparr>"
  by (simp add: VariableChainHeuristic_apply_def recased_context_def scenario_walk
      char_class_simps)

text \<open>
  Claim C10. The variable-chain heuristic compares addresses letter case apart, both when
  it looks for the caller and when it looks for the entry of the recorded address. So its
  resolution does not depend on the letter case of any address string: take two contexts
  with the same call and assignments, whose caller addresses are equal letter case apart
  and whose graphs differ, entry by entry, at most in the letter case of the entry's
  address and of its recorded strings, a recorded address string keeping its tag
  \<^verbatim>\<open>eth:\<close>. Then the heuristic returns nothing on both, or on both one result with the
  same confidence, the same contract names and the same addresses letter case apart.
\<close>

theorem resolution_ignores_address_casing:
  assumes same_call: "call c = call c'"
    and same_chain: "variableAssignments c = variableAssignments c'"
    and caller: "same_ignoring_case (callerContractAddress c) (callerContractAddress c')"
    and graph: "list_all2 recased_entry (entries (discovered c)) (entries (discovered c'))"
  shows "same_resolution (VariableChainHeuristic_apply c) (VariableChainHeuristic_apply c')"
proof -
  let ?sv = "storageVariable (call c)"
  let ?rv = "resolveVariableChain ?sv (variableAssignments c)"
  let ?es = "entries (discovered c)" and ?es' = "entries (discovered c')"
  define G where "G = (\<lambda>(es :: DiscoveredEntry list) (k :: DiscoveredEntry).
      case values k of
        None \<Rightarrow> None
      | Some vs \<Rightarrow>
          (case vs ?rv of
             Some (VString v) \<Rightarrow>
               if startsWith v ''eth:''
               then Some \<lparr>matches =
                       [\<lparr>m_address = v,
                         contractName =
                           (case List.find (\<lambda>e. toLowerCase (address e) = toLowerCase v) es of
                              None \<Rightarrow> None
                            | Some e \<Rightarrow> name e)\<rparr>],
                     confidence = 100\<rparr>
               else None
           | _ \<Rightarrow> None))"
  have a1: "VariableChainHeuristic_apply c =
      (if ?rv = ?sv then None
       else case List.find (\<lambda>e. toLowerCase (address e) = toLowerCase (callerContractAddress c)
                                \<and> type e = ''Contract'') ?es of
              None \<Rightarrow> None
            | Some k \<Rightarrow> G ?es k)"
    unfolding VariableChainHeuristic_apply_def Let_def G_def by simp
  have a2: "VariableChainHeuristic_apply c' =
      (if ?rv = ?sv then None
       else case List.find (\<lambda>e. toLowerCase (address e) = toLowerCase (callerContractAddress c')
                                \<and> type e = ''Contract'') ?es' of
              None \<Rightarrow> None
            | Some k \<Rightarrow> G ?es' k)"
    unfolding VariableChainHeuristic_apply_def Let_def G_def same_call same_chain by simp
  have lc: "toLowerCase (callerContractAddress c) = toLowerCase (callerContractAddress c')"
    using caller by (simp add: toLowerCase_eq_iff)
  have f1: "rel_option recased_entry
      (List.find (\<lambda>e. toLowerCase (address e) = toLowerCase (callerContractAddress c)
                      \<and> type e = ''Contract'') ?es)
      (List.find (\<lambda>e. toLowerCase (address e) = toLowerCase (callerContractAddress c')
                      \<and> type e = ''Contract'') ?es')"
    by (rule find_recased [OF graph])
      (simp add: recased_entry_def toLowerCase_eq_iff [symmetric] lc)
  have f2: "rel_option recased_entry
      (List.find (\<lambda>e. toLowerCase (address e) = toLowerCase v) ?es)
      (List.find (\<lambda>e. toLowerCase (address e) = toLowerCase v') ?es')"
    if "toLowerCase v = toLowerCase v'" for v v'
    by (rule find_recased [OF graph])
      (simp add: recased_entry_def toLowerCase_eq_iff [symmetric] that)
  have names: "(case a of None \<Rightarrow> None | Some e \<Rightarrow> name e)
      = (case b of None \<Rightarrow> None | Some e \<Rightarrow> name e)"
    if "rel_option recased_entry a b" for a b
    using that by (cases a; cases b) (simp_all add: recased_entry_def)
  have g: "same_resolution (G ?es k) (G ?es' k')" if kk: "recased_entry k k'" for k k'
  proof (cases "values k")
    case None
    with kk have "values k' = None" by (cases "values k'") (simp_all add: recased_entry_def)
    with None show ?thesis by (simp add: G_def same_resolution_def)
  next
    case (Some vs)
    with kk obtain vs' where vs': "values k' = Some vs'"
      and rel: "\<forall>key. rel_option agree_up_to_case (vs key) (vs' key)"
      by (cases "values k'") (simp_all add: recased_entry_def)
    from rel have r: "rel_option agree_up_to_case (vs ?rv) (vs' ?rv)" by blast
    show ?thesis
    proof (cases "vs ?rv")
      case None
      with r have "vs' ?rv = None" by (cases "vs' ?rv") simp_all
      with None Some vs' show ?thesis by (simp add: G_def same_resolution_def)
    next
      case x: (Some x)
      with r obtain y where y: "vs' ?rv = Some y" and xy: "agree_up_to_case x y"
        by (cases "vs' ?rv") simp_all
      show ?thesis
      proof (cases x)
        case (VString v)
        with xy obtain v' where v': "y = VString v'"
          and same: "same_ignoring_case v v'"
          and tag: "startsWith v ''eth:'' = startsWith v' ''eth:''"
          by (cases y) simp_all
        from same have low: "toLowerCase v = toLowerCase v'" by (simp add: toLowerCase_eq_iff)
        from names [OF f2 [OF low]] same tag Some vs' x y VString v' show ?thesis
          by (simp add: G_def same_resolution_def)
      next
        case (VNumber n)
        with xy have "\<forall>v'. y \<noteq> VString v'" by (cases y) simp_all
        with Some vs' x y VNumber show ?thesis
          by (cases y) (simp_all add: G_def same_resolution_def)
      next
        case (VBoolean b)
        with xy have "\<forall>v'. y \<noteq> VString v'" by (cases y) simp_all
        with Some vs' x y VBoolean show ?thesis
          by (cases y) (simp_all add: G_def same_resolution_def)
      next
        case (VArray xs)
        with xy have "\<forall>v'. y \<noteq> VString v'" by (cases y) simp_all
        with Some vs' x y VArray show ?thesis
          by (cases y) (simp_all add: G_def same_resolution_def)
      next
        case (VObject kvs)
        with xy have "\<forall>v'. y \<noteq> VString v'" by (cases y) simp_all
        with Some vs' x y VObject show ?thesis
          by (cases y) (simp_all add: G_def same_resolution_def)
      qed
    qed
  qed
  show ?thesis
  proof (cases "List.find (\<lambda>e. toLowerCase (address e) = toLowerCase (callerContractAddress c)
                      \<and> type e = ''Contract'') ?es")
    case None
    with f1 have "List.find (\<lambda>e. toLowerCase (address e) = toLowerCase (callerContractAddress c')
                      \<and> type e = ''Contract'') ?es' = None"
      by simp
    with None show ?thesis unfolding a1 a2 by (simp add: same_resolution_def)
  next
    case (Some k)
    with f1 obtain k' where k': "List.find (\<lambda>e. toLowerCase (address e) = toLowerCase (callerContractAddress c')
                      \<and> type e = ''Contract'') ?es' = Some k'"
      and kk: "recased_entry k k'"
      by (auto simp: option_rel_Some1)
    from g [OF kk] Some k' show ?thesis unfolding a1 a2 by (simp add: same_resolution_def)
  qed
qed

text \<open>
  The example graph and its recasing, where the caller's address, the entries' addresses
  and the recorded address all change their letter case, resolve to the same contract.
\<close>

theorem recased_scenario_same_resolution:
  "same_resolution (VariableChainHeuristic_apply recased_context)
     (VariableChainHeuristic_apply (scenario_context ''eth:0xabcd''))
   \<and> VariableChainHeuristic_apply recased_context =
       Some \<lparr>matches = [\<lparr>m_address = ''eth:0xABCD'', contractName = Some ''TroveManager''\<rparr>],
             confidence = 100\<rparr>
   \<and> VariableChainHeuristic_apply (scenario_context ''eth:0xabcd'') =
       Some \<lparr>matches = [\<lparr>m_address = ''eth:0xabcd'', contractName = Some ''TroveManager''\<rparr>],
             confidence = 100\<rparr>"
proof -
  let ?c = "recased_context" and ?c' = "scenario_context ''eth:0xabcd''"
  have 1: "call ?c = call ?c'" "variableAssignments ?c = variableAssignments ?c'"
    by (simp_all add: recased_context_def scenario_context_def)
  have 2: "same_ignoring_case (callerContractAddress ?c) (callerContractAddress ?c')"
    by (simp add: recased_context_def scenario_context_def
        same_ignoring_case_def same_letter_def lower_of_def)
  have 3: "list_all2 recased_entry (entries (discovered ?c)) (entries (discovered ?c'))"
    by (simp add: recased_context_def scenario_context_def scenario_entries_def
        recased_entry_def startsWith_def same_ignoring_case_def same_letter_def lower_of_def)
  from resolution_ignores_address_casing [OF 1 2 3] recased_scenario scenario_variable_chain
  show ?thesis by simp
qed


section \<open>The engine\<close>

lemma collect_Nil: "collect context [] = []"
  by (simp add: collect_def)

lemma collect_Cons:
  "collect context (h # hs) =
     (case h_apply h context of None \<Rightarrow> collect context hs
      | Some r \<Rightarrow> (h, r) # collect context hs)"
  by (simp add: collect_def split: option.split)

lemma collect_eq_Nil: "collect context hs = [] \<longleftrightarrow> (\<forall>h\<in>set hs. h_apply h context = None)"
  by (induction hs) (auto simp: collect_Nil collect_Cons split: option.splits)

lemma set_collect: "(h, r) \<in> set (collect context hs) \<longleftrightarrow> h \<in> set hs \<and> h_apply h context = Some r"
  by (induction hs) (auto simp: collect_Nil collect_Cons split: option.splits)

lemma collect_split:
  "collect context hs = pre @ (h, r) # post \<Longrightarrow>
     \<exists>hpre hpost. hs = hpre @ h # hpost \<and> h_apply h context = Some r
        \<and> collect context hpre = pre \<and> collect context hpost = post"
proof (induction hs arbitrary: pre)
  case Nil
  then show ?case by (simp add: collect_Nil)
next
  case (Cons a hs)
  show ?case
  proof (cases "h_apply a context")
    case None
    with Cons.prems have "collect context hs = pre @ (h, r) # post"
      by (simp add: collect_Cons)
    from Cons.IH [OF this] obtain hpre hpost where
      "hs = hpre @ h # hpost" "h_apply h context = Some r"
      "collect context hpre = pre" "collect context hpost = post" by blast
    with None have "a # hs = (a # hpre) @ h # hpost \<and> h_apply h context = Some r
        \<and> collect context (a # hpre) = pre \<and> collect context hpost = post"
      by (simp add: collect_Cons)
    then show ?thesis by blast
  next
    case (Some ra)
    with Cons.prems have eq: "(a, ra) # collect context hs = pre @ (h, r) # post"
      by (simp add: collect_Cons)
    show ?thesis
    proof (cases pre)
      case Nil
      with eq have "a = h" "ra = r" "collect context hs = post" by simp_all
      with Some Nil have "a # hs = [] @ h # hs \<and> h_apply h context = Some r
        \<and> collect context [] = pre \<and> collect context hs = post"
        by (simp add: collect_Nil)
      then show ?thesis by blast
    next
      case (Cons p pre')
      with eq have p: "p = (a, ra)" and rest: "collect context hs = pre' @ (h, r) # post"
        by simp_all
      from Cons.IH [OF rest] obtain hpre hpost where
        "hs = hpre @ h # hpost" "h_apply h context = Some r"
        "collect context hpre = pre'" "collect context hpost = post" by blast
      with Some p Cons have "a # hs = (a # hpre) @ h # hpost \<and> h_apply h context = Some r
        \<and> collect context (a # hpre) = pre \<and> collect context hpost = post"
        by (simp add: collect_Cons)
      then show ?thesis by blast
    qed
  qed
qed

lemma resolve_loop_results:
  "fst (resolve_loop onProgress context hs rs s) = rs @ collect context hs"
  by (induction hs arbitrary: rs s) (simp_all add: collect_Nil collect_Cons split: option.split)

lemma run_notifyAsync: "run_async (notifyAsync onProgress msg k) s = run_async k (notify onProgress msg s)"
  by (simp add: notifyAsync_def notify_def split: option.split)

lemma run_resolveAsync_loop:
  "run_async (resolveAsync_loop onProgress context hs rs k) s =
     (case resolve_loop onProgress context hs rs s of (rs', s') \<Rightarrow> run_async (k rs') s')"
  by (induction hs arbitrary: rs s) (simp_all add: run_notifyAsync split: option.split)

lemma run_resolveAsync:
  "run_async (resolveAsync engine context onProgress) s = resolve engine context onProgress s"
  by (simp add: resolveAsync_def resolve_def run_notifyAsync run_resolveAsync_loop Let_def
      split: prod.split list.split)

lemma insert_sorted_not_Nil: "insert_sorted cmp x ys \<noteq> []"
  by (cases ys) simp_all

lemma sort_js_Cons: "sort_js cmp (x # xs) = insert_sorted cmp x (sort_js cmp xs)"
  by (simp add: sort_js_def)

lemma sort_js_eq_Nil: "sort_js cmp xs = [] \<longleftrightarrow> xs = []"
  by (cases xs) (simp_all add: sort_js_def insert_sorted_not_Nil)

lemma hd_insert_sorted:
  "hd (insert_sorted byConfidenceDesc x ys) =
     (if ys = [] \<or> confidence (snd (hd ys)) \<le> confidence (snd x) then x else hd ys)"
  by (cases ys) (simp_all add: byConfidenceDesc_def)

lemma hd_sort_js:
  "xs \<noteq> [] \<Longrightarrow>
     \<exists>pre w post. xs = pre @ w # post \<and> hd (sort_js byConfidenceDesc xs) = w
       \<and> (\<forall>y\<in>set pre. confidence (snd y) < confidence (snd w))
       \<and> (\<forall>y\<in>set post. confidence (snd y) \<le> confidence (snd w))"
proof (induction xs)
  case Nil
  then show ?case by simp
next
  case (Cons x xs)
  show ?case
  proof (cases "xs = []")
    case True
    then have "x # xs = [] @ x # [] \<and> hd (sort_js byConfidenceDesc (x # xs)) = x"
      by (simp add: sort_js_def)
    then show ?thesis by fastforce
  next
    case False
    from Cons.IH [OF False] obtain pre w post where
      xs: "xs = pre @ w # post" and w: "hd (sort_js byConfidenceDesc xs) = w"
      and lt: "\<forall>y\<in>set pre. confidence (snd y) < confidence (snd w)"
      and le: "\<forall>y\<in>set post. confidence (snd y) \<le> confidence (snd w)" by blast
    from False have ne: "sort_js byConfidenceDesc xs \<noteq> []" by (simp add: sort_js_eq_Nil)
    show ?thesis
    proof (cases "confidence (snd w) \<le> confidence (snd x)")
      case True
      with w ne have "hd (sort_js byConfidenceDesc (x # xs)) = x"
        by (simp add: sort_js_Cons hd_insert_sorted)
      moreover from True lt le xs have "\<forall>y\<in>set xs. confidence (snd y) \<le> confidence (snd x)"
        by fastforce
      ultimately have "x # xs = [] @ x # xs \<and> hd (sort_js byConfidenceDesc (x # xs)) = x
        \<and> (\<forall>y\<in>set []. confidence (snd y) < confidence (snd x))
        \<and> (\<forall>y\<in>set xs. confidence (snd y) \<le> confidence (snd x))" by simp
      then show ?thesis by blast
    next
      case False
      with w ne have "hd (sort_js byConfidenceDesc (x # xs)) = w"
        by (simp add: sort_js_Cons hd_insert_sorted)
      moreover from False lt have "\<forall>y\<in>set (x # pre). confidence (snd y) < confidence (snd w)"
        by simp
      moreover from xs have "x # xs = (x # pre) @ w # post" by simp
      ultimately show ?thesis using le by blast
    qed
  qed
qed

lemma resolve_decision:
  "fst (resolve engine context onProgress s) =
     (if collect context (heuristics engine) = [] then None
      else Some (toEngineResult (hd (sort_js byConfidenceDesc (collect context (heuristics engine))))))"
proof -
  obtain rs s' where loop: "resolve_loop onProgress context (heuristics engine) []
      (notify onProgress (resolving_line context) s) = (rs, s')"
    by (cases "resolve_loop onProgress context (heuristics engine) []
      (notify onProgress (resolving_line context) s)")
  from resolve_loop_results [of onProgress "context" "heuristics engine" "[]"
      "notify onProgress (resolving_line context) s"] loop
  have rs: "rs = collect context (heuristics engine)" by simp
  show ?thesis
  proof (cases "rs = []")
    case True
    with loop rs show ?thesis by (simp add: resolve_def)
  next
    case False
    then obtain w ws where "sort_js byConfidenceDesc rs = w # ws"
      by (cases "sort_js byConfidenceDesc rs") (simp_all add: sort_js_eq_Nil)
    with loop rs False show ?thesis by (simp add: resolve_def)
  qed
qed

lemma heuristics_register: "heuristics (foldl register engine hs) = heuristics engine @ hs"
  by (induction hs arbitrary: engine) (simp_all add: register_def)

text \<open>
  Claim C1. For an engine whose heuristics \<open>hs\<close> were registered in this order, and a
  context on which at least one of them returns a result, \<^verbatim>\<open>resolve\<close> returns the name,
  the matches and the confidence of a heuristic \<open>h\<close> such that no heuristic has a result of
  higher confidence and every heuristic registered before \<open>h\<close> has a result of lower
  confidence, if it has one: the highest confidence wins, and among equals the earliest
  registered.
\<close>

theorem resolve_highest_then_earliest:
  assumes built: "engine = foldl register new_HeuristicEngine hs"
    and some: "\<exists>h\<in>set hs. h_apply h context \<noteq> None"
  shows "\<exists>pre h post r. hs = pre @ h # post \<and> h_apply h context = Some r
    \<and> fst (resolve engine context onProgress s) =
        Some \<lparr>heuristicName = h_name h, r_matches = toCandidates (matches r),
              r_confidence = confidence r\<rparr>
    \<and> (\<forall>h'\<in>set pre. \<forall>r'. h_apply h' context = Some r' \<longrightarrow> confidence r' < confidence r)
    \<and> (\<forall>h'\<in>set post. \<forall>r'. h_apply h' context = Some r' \<longrightarrow> confidence r' \<le> confidence r)"
proof -
  from built have hs: "heuristics engine = hs"
    by (simp add: heuristics_register new_HeuristicEngine_def)
  from some have ne: "collect context hs \<noteq> []" by (simp add: collect_eq_Nil)
  from hd_sort_js [OF ne] obtain pre w post where
    split: "collect context hs = pre @ w # post"
    and w: "hd (sort_js byConfidenceDesc (collect context hs)) = w"
    and lt: "\<forall>y\<in>set pre. confidence (snd y) < confidence (snd w)"
    and le: "\<forall>y\<in>set post. confidence (snd y) \<le> confidence (snd w)" by blast
  obtain h r where wr: "w = (h, r)" by (cases w)
  from collect_split [OF split [unfolded wr]] obtain hpre hpost where
    parts: "hs = hpre @ h # hpost" "h_apply h context = Some r"
      "collect context hpre = pre" "collect context hpost = post" by blast
  have dec: "fst (resolve engine context onProgress s) =
      Some \<lparr>heuristicName = h_name h, r_matches = toCandidates (matches r),
            r_confidence = confidence r\<rparr>"
    using ne w wr hs by (simp add: resolve_decision toEngineResult_def)
  have pre: "\<forall>h'\<in>set hpre. \<forall>r'. h_apply h' context = Some r' \<longrightarrow> confidence r' < confidence r"
  proof (intro ballI allI impI)
    fix h' r' assume "h' \<in> set hpre" "h_apply h' context = Some r'"
    then have "(h', r') \<in> set (collect context hpre)" by (simp add: set_collect)
    with parts(3) have "(h', r') \<in> set pre" by simp
    with lt wr show "confidence r' < confidence r" by fastforce
  qed
  have post: "\<forall>h'\<in>set hpost. \<forall>r'. h_apply h' context = Some r' \<longrightarrow> confidence r' \<le> confidence r"
  proof (intro ballI allI impI)
    fix h' r' assume "h' \<in> set hpost" "h_apply h' context = Some r'"
    then have "(h', r') \<in> set (collect context hpost)" by (simp add: set_collect)
    with parts(4) have "(h', r') \<in> set post" by simp
    with le wr show "confidence r' \<le> confidence r" by fastforce
  qed
  from parts(1,2) dec pre post show ?thesis by blast
qed

text \<open>
  Of three heuristics with confidences 50, 70 and 70, registered in this order, the
  second wins.
\<close>

theorem tie_goes_to_earlier:
  "fst (resolve (foldl register new_HeuristicEngine tied_heuristics)
          (unknown_context ''I'') None ()) =
     Some \<lparr>heuristicName = ''second'',
           r_matches = [\<lparr>c_address = ''second'', c_contractName = None\<rparr>],
           r_confidence = 70\<rparr>"
proof -
  have some: "\<exists>h\<in>set tied_heuristics. h_apply h (unknown_context ''I'') \<noteq> None"
    by (simp add: tied_heuristics_def fixed_heuristic_def)
  from resolve_highest_then_earliest [OF refl some, of None "()"]
  obtain pre h post r where
    split: "tied_heuristics = pre @ h # post"
    and r: "h_apply h (unknown_context ''I'') = Some r"
    and dec: "fst (resolve (foldl register new_HeuristicEngine tied_heuristics)
          (unknown_context ''I'') None ()) =
        Some \<lparr>heuristicName = h_name h, r_matches = toCandidates (matches r),
              r_confidence = confidence r\<rparr>"
    and before: "\<forall>h'\<in>set pre. \<forall>r'. h_apply h' (unknown_context ''I'') = Some r'
        \<longrightarrow> confidence r' < confidence r"
    and after: "\<forall>h'\<in>set post. \<forall>r'. h_apply h' (unknown_context ''I'') = Some r'
        \<longrightarrow> confidence r' \<le> confidence r"
    by blast
  from split consider
      "pre = []" "h = fixed_heuristic ''first'' 50"
        "post = [fixed_heuristic ''second'' 70, fixed_heuristic ''third'' 70]"
    | "pre = [fixed_heuristic ''first'' 50]" "h = fixed_heuristic ''second'' 70"
        "post = [fixed_heuristic ''third'' 70]"
    | "pre = [fixed_heuristic ''first'' 50, fixed_heuristic ''second'' 70]"
        "h = fixed_heuristic ''third'' 70" "post = []"
    unfolding tied_heuristics_def by (auto simp: Cons_eq_append_conv)
  then show ?thesis
  proof cases
    case 1
    with r after show ?thesis by (auto simp: fixed_heuristic_def)
  next
    case 2
    with r dec show ?thesis by (auto simp: fixed_heuristic_def toCandidates_def)
  next
    case 3
    with r before show ?thesis by (auto simp: fixed_heuristic_def)
  qed
qed

text \<open>
  Claim C3. Running \<^verbatim>\<open>resolveAsync\<close> to completion gives the decision of \<^verbatim>\<open>resolve\<close> and
  leaves the receiver of the trace in the same state, for every callback and every state
  of the receiver: the same lines reach the callback in the same order. The decision does
  not depend on the callback or on the receiver.
\<close>

theorem resolveAsync_agrees_with_resolve:
  "run_async (resolveAsync engine context onProgress) s = resolve engine context onProgress s
   \<and> fst (run_async (resolveAsync engine context onProgress) s)
       = fst (resolve engine context onProgress' s')"
  by (simp add: run_resolveAsync resolve_decision)

lemma scenario_resolving_line:
  "resolving_line (scenario_context v) = Resolving ''tmCached'' ''liquidate'' ''ITroveManager''"
  by (simp add: resolving_line_def scenario_context_def)

lemma scenario_resolve:
  "resolve createHeuristicEngine (scenario_context ''eth:0xabcd'') logger [] =
     (Some \<lparr>heuristicName = ''variable-chain'',
            r_matches = [\<lparr>c_address = ''eth:0xabcd'', c_contractName = Some ''TroveManager''\<rparr>],
            r_confidence = 100\<rparr>,
      [Resolving ''tmCached'' ''liquidate'' ''ITroveManager'',
       HeuristicMatched ''variable-chain'' 1 ''TroveManager'' 100,
       HeuristicMatched ''interface-name'' 1 ''TroveManager'' 90,
       HeuristicMatched ''function-signature'' 1 ''TroveManager'' 99,
       Winner ''variable-chain'' 100 ''TroveManager''])"
  by (simp add: resolve_def createHeuristicEngine_def register_def new_HeuristicEngine_def
      VariableChainHeuristic_def InterfaceNameHeuristic_def FunctionSignatureHeuristic_def
      scenario_variable_chain scenario_interface_name scenario_function_signature
      logger_def notify_def sort_js_def byConfidenceDesc_def scenario_resolving_line
      winner_line_def toEngineResult_def toCandidates_def matchNames_def)

text \<open>
  On the example graph both modes hand the same five lines to a callback that records
  them, and return the variable-chain heuristic's match.
\<close>

theorem scenario_same_trace:
  "run_async (resolveAsync createHeuristicEngine (scenario_context ''eth:0xabcd'') logger) [] =
     (Some \<lparr>heuristicName = ''variable-chain'',
            r_matches = [\<lparr>c_address = ''eth:0xabcd'', c_contractName = Some ''TroveManager''\<rparr>],
            r_confidence = 100\<rparr>,
      [Resolving ''tmCached'' ''liquidate'' ''ITroveManager'',
       HeuristicMatched ''variable-chain'' 1 ''TroveManager'' 100,
       HeuristicMatched ''interface-name'' 1 ''TroveManager'' 90,
       HeuristicMatched ''function-signature'' 1 ''TroveManager'' 99,
       Winner ''variable-chain'' 100 ''TroveManager''])"
  using resolveAsync_agrees_with_resolve
    [of createHeuristicEngine "scenario_context ''eth:0xabcd''" logger "[]" logger "[]"]
    scenario_resolve
  by simp

lemma builtin_results_nonempty:
  "\<forall>h\<in>set (heuristics createHeuristicEngine). \<forall>r. h_apply h c = Some r \<longrightarrow> matches r \<noteq> []"
proof -
  have "matches r \<noteq> []" if "VariableChainHeuristic_apply c = Some r" for r
    using VariableChainHeuristic_apply_Some [OF that] by auto
  moreover have "matches r \<noteq> []" if "InterfaceNameHeuristic_apply c = Some r" for r
    using InterfaceNameHeuristic_apply_Some [OF that] by simp
  moreover have "matches r \<noteq> []" if "FunctionSignatureHeuristic_apply c = Some r" for r
    using FunctionSignatureHeuristic_apply_Some [OF that] by simp
  ultimately show ?thesis
    by (simp add: createHeuristicEngine_def register_def new_HeuristicEngine_def
        VariableChainHeuristic_def InterfaceNameHeuristic_def FunctionSignatureHeuristic_def)
qed

text \<open>
  Claim C5. For the default engine on every context, and for every engine whose heuristics
  return only results with at least one match (the invariant of \<^verbatim>\<open>HeuristicResult\<close>, which the
  three heuristics of the default engine keep), \<^verbatim>\<open>resolve\<close> and \<^verbatim>\<open>resolveAsync\<close> return no
  decision when no heuristic returns a result, and a decision with at least one match when
  some heuristic returns a result.
\<close>

theorem decision_absent_or_nonempty:
  assumes engine: "engine = createHeuristicEngine
      \<or> (\<forall>h\<in>set (heuristics engine). \<forall>r. h_apply h context = Some r \<longrightarrow> matches r \<noteq> [])"
  shows "((\<forall>h\<in>set (heuristics engine). h_apply h context = None) \<longrightarrow>
            fst (resolve engine context onProgress s) = None
            \<and> fst (run_async (resolveAsync engine context onProgress) s) = None)
       \<and> ((\<exists>h\<in>set (heuristics engine). h_apply h context \<noteq> None) \<longrightarrow>
            (\<exists>d. fst (resolve engine context onProgress s) = Some d
                \<and> fst (run_async (resolveAsync engine context onProgress) s) = Some d
                \<and> r_matches d \<noteq> []))"
proof (intro conjI impI)
  assume "\<forall>h\<in>set (heuristics engine). h_apply h context = None"
  then show "fst (resolve engine context onProgress s) = None"
    by (simp add: resolve_decision collect_eq_Nil)
  then show "fst (run_async (resolveAsync engine context onProgress) s) = None"
    by (simp add: run_resolveAsync)
next
  assume "\<exists>h\<in>set (heuristics engine). h_apply h context \<noteq> None"
  then have ne: "collect context (heuristics engine) \<noteq> []" by (simp add: collect_eq_Nil)
  from hd_sort_js [OF ne] obtain pre w post where
    split: "collect context (heuristics engine) = pre @ w # post"
    and w: "hd (sort_js byConfidenceDesc (collect context (heuristics engine))) = w" by blast
  obtain h r where wr: "w = (h, r)" by (cases w)
  from split wr have "(h, r) \<in> set (collect context (heuristics engine))" by simp
  then have "h \<in> set (heuristics engine)" "h_apply h context = Some r"
    by (simp_all add: set_collect)
  moreover from engine
  have "\<forall>h\<in>set (heuristics engine). \<forall>r. h_apply h context = Some r \<longrightarrow> matches r \<noteq> []"
    using builtin_results_nonempty [of "context"] by blast
  ultimately have "matches r \<noteq> []" by blast
  with ne w wr have "fst (resolve engine context onProgress s) = Some (toEngineResult w)
      \<and> r_matches (toEngineResult w) \<noteq> []"
    by (simp add: resolve_decision toEngineResult_def toCandidates_def)
  then show "\<exists>d. fst (resolve engine context onProgress s) = Some d
      \<and> fst (run_async (resolveAsync engine context onProgress) s) = Some d \<and> r_matches d \<noteq> []"
    by (simp add: run_resolveAsync)
qed

text \<open>
  The default engine has no decision for the call that no heuristic knows, and a decision
  with a match on the example graph.
\<close>

theorem default_engine_decisions:
  "fst (resolve createHeuristicEngine (unknown_context ''I'') None ()) = None
   \<and> fst (run_async (resolveAsync createHeuristicEngine (unknown_context ''I'') None) ()) = None
   \<and> (\<exists>d. fst (resolve createHeuristicEngine (scenario_context ''eth:0xabcd'') None ()) = Some d
         \<and> fst (run_async (resolveAsync createHeuristicEngine (scenario_context ''eth:0xabcd'') None) ())
             = Some d
         \<and> r_matches d \<noteq> [])"
proof -
  have hs: "heuristics createHeuristicEngine =
      [VariableChainHeuristic, InterfaceNameHeuristic, FunctionSignatureHeuristic]"
    by (simp add: createHeuristicEngine_def register_def new_HeuristicEngine_def)
  have none: "\<forall>h\<in>set (heuristics createHeuristicEngine). h_apply h (unknown_context ''I'') = None"
    by (simp add: hs VariableChainHeuristic_def InterfaceNameHeuristic_def
        FunctionSignatureHeuristic_def VariableChainHeuristic_apply_def
        InterfaceNameHeuristic_apply_def FunctionSignatureHeuristic_apply_def
        unknown_context_def scenario_entries_def scenario_abis_def resolveVariableChain_def
        loop_unfold isCalledFunction_def match_function_def char_class_simps)
  have some: "\<exists>h\<in>set (heuristics createHeuristicEngine).
      h_apply h (scenario_context ''eth:0xabcd'') \<noteq> None"
    by (simp add: hs VariableChainHeuristic_def scenario_variable_chain)
  from decision_absent_or_nonempty [OF disjI1 [OF refl], of "unknown_context ''I''" None "()"]
    decision_absent_or_nonempty [OF disjI1 [OF refl], of "scenario_context ''eth:0xabcd''" None "()"]
    none some
  show ?thesis by blast
qed


end
